theory Spec2Isabelle
  imports Complex_Main "HOL-Library.Word" "HOL-Library.Multiset"
begin

unbundle bit_operations_syntax

section \<open>Images\<close>

text \<open>
  A \<^verbatim>\<open>cv::Mat\<close> is its header (\<^verbatim>\<open>rows\<close>, \<^verbatim>\<open>cols\<close>, element type) and its pixels in
  row-major order. Masks are \<^verbatim>\<open>CV_8U\<close> images of bytes, an HSV frame is a \<^verbatim>\<open>CV_8UC3\<close>
  image of (hue, saturation, value) byte triples. For an image of any other element type
  the pixel list is never read.
\<close>

type_synonym byte = "8 word"

type_synonym hsv_pixel = "byte \<times> byte \<times> byte"

datatype mat_type = CV_8U | CV_8UC3 | CV_other

record 'a Mat =
  rows :: nat
  cols :: nat
  mtype :: mat_type
  data :: "'a list"

text \<open>\<^verbatim>\<open>cv::Mat()\<close>, which is what \<^verbatim>\<open>return {}\<close> and \<^verbatim>\<open>cv::Mat m;\<close> construct.\<close>

definition Mat_default :: "'a Mat" where
  "Mat_default = \<lparr>rows = 0, cols = 0, mtype = CV_8U, data = []\<rparr>"

text \<open>\<^verbatim>\<open>Mat::empty()\<close>: no element, or no data.\<close>

definition Mat_empty :: "'a Mat \<Rightarrow> bool" where
  "Mat_empty m \<longleftrightarrow> rows m * cols m = 0 \<or> data m = []"

text \<open>The pixel list of an image has one pixel for each place of its header.\<close>

definition Mat_wf :: "'a Mat \<Rightarrow> bool" where
  "Mat_wf m \<longleftrightarrow> length (data m) = rows m * cols m"

text \<open>\<^verbatim>\<open>cv::Mat::zeros(src.size(), CV_8U)\<close>.\<close>

definition Mat_zeros :: "'a Mat \<Rightarrow> byte Mat" where
  "Mat_zeros src = \<lparr>rows = rows src, cols = cols src, mtype = CV_8U,
     data = replicate (length (data src)) 0\<rparr>"

text \<open>
  \<^verbatim>\<open>cv::inRange(src, lowerb, upperb, dst)\<close> with scalar bounds on a three-channel byte
  image: a pixel of \<^verbatim>\<open>dst\<close> is 255 when every channel lies between its two bounds, both
  included, and 0 otherwise. The bounds are the integers the caller passes.
\<close>

definition in_bounds :: "byte \<Rightarrow> int \<Rightarrow> int \<Rightarrow> bool" where
  "in_bounds x lo hi \<longleftrightarrow> lo \<le> uint x \<and> uint x \<le> hi"

definition inRange_px :: "int \<times> int \<times> int \<Rightarrow> int \<times> int \<times> int \<Rightarrow> hsv_pixel \<Rightarrow> byte" where
  "inRange_px lowerb upperb p =
     (case (lowerb, upperb, p) of ((l0, l1, l2), (u0, u1, u2), (h, s, v)) \<Rightarrow>
        if in_bounds h l0 u0 \<and> in_bounds s l1 u1 \<and> in_bounds v l2 u2 then 255 else 0)"

definition cv_inRange :: "hsv_pixel Mat \<Rightarrow> int \<times> int \<times> int \<Rightarrow> int \<times> int \<times> int \<Rightarrow> byte Mat" where
  "cv_inRange src lowerb upperb = \<lparr>rows = rows src, cols = cols src, mtype = CV_8U,
     data = map (inRange_px lowerb upperb) (data src)\<rparr>"

text \<open>
  \<^verbatim>\<open>cv::bitwise_or\<close>, \<^verbatim>\<open>cv::bitwise_and\<close>, \<^verbatim>\<open>cv::bitwise_xor\<close> work pixel by pixel on
  two images of one size (every pair of masks that meets in this program has the size of
  the frame); the result has the header of the first.
\<close>

definition cv_bitwise :: "(byte \<Rightarrow> byte \<Rightarrow> byte) \<Rightarrow> byte Mat \<Rightarrow> byte Mat \<Rightarrow> byte Mat" where
  "cv_bitwise f a b = a\<lparr>data := map2 f (data a) (data b)\<rparr>"

definition cv_bitwise_or :: "byte Mat \<Rightarrow> byte Mat \<Rightarrow> byte Mat" where
  "cv_bitwise_or = cv_bitwise (OR)"

definition cv_bitwise_and :: "byte Mat \<Rightarrow> byte Mat \<Rightarrow> byte Mat" where
  "cv_bitwise_and = cv_bitwise (AND)"

definition cv_bitwise_xor :: "byte Mat \<Rightarrow> byte Mat \<Rightarrow> byte Mat" where
  "cv_bitwise_xor = cv_bitwise (XOR)"


text \<open>\<^verbatim>\<open>cv::countNonZero\<close>.\<close>

definition cv_countNonZero :: "byte Mat \<Rightarrow> int" where
  "cv_countNonZero m = int (length (filter (\<lambda>b. b \<noteq> 0) (data m)))"

section \<open>Errors\<close>

datatype error = invalid_argument string | runtime_error string

section \<open>Colour configuration and the mask builder\<close>

record HueRange =
  minHue :: int
  maxHue :: int

record ChannelRange =
  minValue :: int
  maxValue :: int

text \<open>\<^verbatim>\<open>HueRangeSet\<close> is its private vector \<^verbatim>\<open>ranges_\<close>.\<close>

type_synonym HueRangeSet = "HueRange list"

definition ClampHue :: "int \<Rightarrow> int" where
  "ClampHue h = (if h < 0 then 0 else if h > 179 then 179 else h)"

definition Add :: "HueRangeSet \<Rightarrow> HueRange \<Rightarrow> HueRangeSet" where
  "Add ranges r =
     ranges @ [r\<lparr>minHue := ClampHue (minHue r), maxHue := ClampHue (maxHue r)\<rparr>]"

text \<open>Both constructors: \<^verbatim>\<open>Add\<close> each given range to the empty set, in order.\<close>

definition HueRangeSet_of :: "HueRange list \<Rightarrow> HueRangeSet" where
  "HueRangeSet_of ranges = foldl Add [] ranges"

definition Clear :: "HueRangeSet \<Rightarrow> HueRangeSet" where
  "Clear ranges = []"

definition Empty :: "HueRangeSet \<Rightarrow> bool" where
  "Empty ranges \<longleftrightarrow> ranges = []"

text \<open>\<^verbatim>\<open>std::clamp(v, lo, hi)\<close>.\<close>

definition std_clamp :: "int \<Rightarrow> int \<Rightarrow> int \<Rightarrow> int" where
  "std_clamp v lo hi = (if v < lo then lo else if hi < v then hi else v)"

text \<open>The body of the loop over \<^verbatim>\<open>ranges_\<close>: the mask \<^verbatim>\<open>part\<close> of one hue range.\<close>

definition range_part :: "hsv_pixel Mat \<Rightarrow> int \<Rightarrow> int \<Rightarrow> int \<Rightarrow> int \<Rightarrow> HueRange \<Rightarrow> byte Mat" where
  "range_part hsv satMin satMax valMin valMax r =
     (if minHue r \<le> maxHue r then
        cv_inRange hsv (minHue r, satMin, valMin) (maxHue r, satMax, valMax)
      else
        let a = cv_inRange hsv (0, satMin, valMin) (maxHue r, satMax, valMax);
            b = cv_inRange hsv (minHue r, satMin, valMin) (179, satMax, valMax)
        in cv_bitwise_or a b)"

definition HueRangeSet_BuildMask ::
  "HueRangeSet \<Rightarrow> hsv_pixel Mat \<Rightarrow> int \<Rightarrow> int \<Rightarrow> int \<Rightarrow> int \<Rightarrow> error + byte Mat" where
  "HueRangeSet_BuildMask ranges hsv satMin0 satMax0 valMin0 valMax0 =
     (if Mat_empty hsv then Inr Mat_default
      else if mtype hsv \<noteq> CV_8UC3 then
        Inl (invalid_argument ''HueRangeSet::BuildMask expects CV_8UC3 HSV image.'')
      else if ranges = [] then Inr (Mat_zeros hsv)
      else
        let satMin1 = std_clamp satMin0 0 255;
            satMax1 = std_clamp satMax0 0 255;
            valMin1 = std_clamp valMin0 0 255;
            valMax1 = std_clamp valMax0 0 255;
            (satMin, satMax) = (if satMin1 > satMax1 then (satMax1, satMin1) else (satMin1, satMax1));
            (valMin, valMax) = (if valMin1 > valMax1 then (valMax1, valMin1) else (valMin1, valMax1))
        in Inr (foldl (\<lambda>accumulated r.
                  cv_bitwise_or accumulated (range_part hsv satMin satMax valMin valMax r))
                (Mat_zeros hsv) ranges))"

record ColorMaskConfig =
  hues :: HueRangeSet
  satRange :: ChannelRange
  valRange :: ChannelRange

text \<open>\<^verbatim>\<open>detail::BuildMask\<close> and \<^verbatim>\<open>detail::BuildExcludeMask\<close>.\<close>

definition BuildMask :: "hsv_pixel Mat \<Rightarrow> ColorMaskConfig \<Rightarrow> error + byte Mat" where
  "BuildMask hsv cfg =
     HueRangeSet_BuildMask (hues cfg) hsv
       (minValue (satRange cfg)) (maxValue (satRange cfg))
       (minValue (valRange cfg)) (maxValue (valRange cfg))"

definition BuildExcludeMask ::
  "hsv_pixel Mat \<Rightarrow> HueRangeSet \<Rightarrow> ChannelRange \<Rightarrow> ChannelRange \<Rightarrow> error + byte Mat" where
  "BuildExcludeMask hsv ranges satR valR =
     HueRangeSet_BuildMask ranges hsv (minValue satR) (maxValue satR) (minValue valR) (maxValue valR)"

subsection \<open>What the specification says a colour specification denotes\<close>

text \<open>
  The hues a \<^verbatim>\<open>HueRange\<close> denotes: the interval from \<^verbatim>\<open>minHue\<close> to \<^verbatim>\<open>maxHue\<close>, or, when
  \<^verbatim>\<open>minHue > maxHue\<close>, the wraparound union of 0 to \<^verbatim>\<open>maxHue\<close> and \<^verbatim>\<open>minHue\<close> to 179.
\<close>

definition hue_in_range :: "HueRange \<Rightarrow> int \<Rightarrow> bool" where
  "hue_in_range r h \<longleftrightarrow>
     (if minHue r \<le> maxHue r then minHue r \<le> h \<and> h \<le> maxHue r
      else (0 \<le> h \<and> h \<le> maxHue r) \<or> (minHue r \<le> h \<and> h \<le> 179))"

definition hue_in_union :: "HueRange list \<Rightarrow> int \<Rightarrow> bool" where
  "hue_in_union ranges h \<longleftrightarrow> list_ex (\<lambda>r. hue_in_range r h) ranges"

text \<open>
  The bounds of a \<^verbatim>\<open>ChannelRange\<close> as the mask builder takes them: both clamped to 0..255,
  then swapped if reversed.
\<close>

definition effective_range :: "ChannelRange \<Rightarrow> int \<times> int" where
  "effective_range c =
     (let lo = max 0 (min 255 (minValue c)); hi = max 0 (min 255 (maxValue c))
      in if lo > hi then (hi, lo) else (lo, hi))"

definition in_channel_range :: "ChannelRange \<Rightarrow> int \<Rightarrow> bool" where
  "in_channel_range c x \<longleftrightarrow> fst (effective_range c) \<le> x \<and> x \<le> snd (effective_range c)"

definition foreground :: "byte \<Rightarrow> bool" where
  "foreground b \<longleftrightarrow> b \<noteq> 0"

definition spec_foreground :: "ColorMaskConfig \<Rightarrow> hsv_pixel \<Rightarrow> bool" where
  "spec_foreground cfg p =
     (case p of (h, s, v) \<Rightarrow>
        hue_in_union (hues cfg) (uint h) \<and> in_channel_range (satRange cfg) (uint s)
          \<and> in_channel_range (valRange cfg) (uint v))"

section \<open>Floating-point numbers\<close>

text \<open>
  \<^verbatim>\<open>float\<close> and \<^verbatim>\<open>double\<close> are IEEE 754 binary32 and binary64 with the default rounding
  (to nearest, ties to even); every operation is computed in the format of its C++ type.
  A value is a NaN, an infinity with its sign (\<open>True\<close> for the negative one) or a finite
  rational. The two zeros are one value: they compare equal, and the only operation that
  tells them apart, a division by zero, is reached in this program with a divisor that is
  a square only.
\<close>

datatype fp = NaN | Infty bool | Fin rat

definition round_half_even :: "rat \<Rightarrow> int" where
  "round_half_even q =
     (let f = \<lfloor>q\<rfloor>; d = q - of_int f
      in if d < 1 / 2 then f else if 1 / 2 < d then f + 1 else if even f then f else f + 1)"

text \<open>
  The binary exponent of a positive integer \<open>n\<close> and of a positive rational \<open>a\<close>: the
  \<open>e\<close> with \<open>2^e \<le> a < 2^(e+1)\<close>. The quotient of two integers with exponents \<open>i\<close> and
  \<open>j\<close> has the exponent \<open>i - j\<close> or \<open>i - j - 1\<close>.
\<close>

function ilog2_int :: "int \<Rightarrow> int" where
  "ilog2_int n = (if n \<le> 1 then 0 else 1 + ilog2_int (n div 2))"
  by pat_completeness auto
termination
  by (relation "measure nat") auto

declare ilog2_int.simps [simp del]

definition ilog2 :: "rat \<Rightarrow> int" where
  "ilog2 a =
     (case quotient_of a of (p, q) \<Rightarrow>
        let d = ilog2_int p - ilog2_int q
        in if power_int 2 d \<le> a then d else d - 1)"

text \<open>
  Rounding a rational to the format with \<open>p\<close> significant bits and exponents from
  \<open>emin\<close> to \<open>emax\<close>: to the nearest multiple of the unit in the last place of its
  binade (of the subnormal binade below \<open>2^emin\<close>), to infinity from \<open>2^(emax+1)\<close> on.
\<close>

definition fp_round :: "nat \<Rightarrow> int \<Rightarrow> int \<Rightarrow> rat \<Rightarrow> fp" where
  "fp_round p emin emax x =
     (if x = 0 then Fin 0
      else
        let a = \<bar>x\<bar>;
            e = max emin (ilog2 a);
            ulp = power_int 2 (e - int p + 1);
            r = of_int (round_half_even (a / ulp)) * ulp
        in if power_int 2 (emax + 1) \<le> r then Infty (x < 0)
           else Fin (if x < 0 then - r else r))"

definition f32 :: "rat \<Rightarrow> fp" where
  "f32 = fp_round 24 (- 126) 127"

definition f64 :: "rat \<Rightarrow> fp" where
  "f64 = fp_round 53 (- 1022) 1023"

text \<open>The arithmetic operations, rounded by \<open>rnd\<close>.\<close>

fun fp_add :: "(rat \<Rightarrow> fp) \<Rightarrow> fp \<Rightarrow> fp \<Rightarrow> fp" where
  "fp_add rnd NaN b = NaN"
| "fp_add rnd a NaN = NaN"
| "fp_add rnd (Infty s) (Infty t) = (if s = t then Infty s else NaN)"
| "fp_add rnd (Infty s) (Fin y) = Infty s"
| "fp_add rnd (Fin x) (Infty t) = Infty t"
| "fp_add rnd (Fin x) (Fin y) = rnd (x + y)"

fun fp_mul :: "(rat \<Rightarrow> fp) \<Rightarrow> fp \<Rightarrow> fp \<Rightarrow> fp" where
  "fp_mul rnd NaN b = NaN"
| "fp_mul rnd a NaN = NaN"
| "fp_mul rnd (Infty s) (Infty t) = Infty (s \<noteq> t)"
| "fp_mul rnd (Infty s) (Fin y) = (if y = 0 then NaN else Infty (s \<noteq> (y < 0)))"
| "fp_mul rnd (Fin x) (Infty t) = (if x = 0 then NaN else Infty ((x < 0) \<noteq> t))"
| "fp_mul rnd (Fin x) (Fin y) = rnd (x * y)"

fun fp_div :: "(rat \<Rightarrow> fp) \<Rightarrow> fp \<Rightarrow> fp \<Rightarrow> fp" where
  "fp_div rnd NaN b = NaN"
| "fp_div rnd a NaN = NaN"
| "fp_div rnd (Infty s) (Infty t) = NaN"
| "fp_div rnd (Infty s) (Fin y) = Infty (s \<noteq> (y < 0))"
| "fp_div rnd (Fin x) (Infty t) = Fin 0"
| "fp_div rnd (Fin x) (Fin y) =
     (if y = 0 then (if x = 0 then NaN else Infty (x < 0)) else rnd (x / y))"

text \<open>The comparisons \<^verbatim>\<open><\<close> and \<^verbatim>\<open><=\<close>; \<^verbatim>\<open>a > b\<close> is \<open>flt b a\<close>, \<^verbatim>\<open>a >= b\<close> is \<open>fle b a\<close>.
  Every comparison with a NaN is false.\<close>

fun flt :: "fp \<Rightarrow> fp \<Rightarrow> bool" where
  "flt NaN b = False"
| "flt a NaN = False"
| "flt (Infty s) (Infty t) = (s \<and> \<not> t)"
| "flt (Infty s) (Fin y) = s"
| "flt (Fin x) (Infty t) = (\<not> t)"
| "flt (Fin x) (Fin y) = (x < y)"

fun fle :: "fp \<Rightarrow> fp \<Rightarrow> bool" where
  "fle NaN b = False"
| "fle a NaN = False"
| "fle (Infty s) (Infty t) = (s \<or> \<not> t)"
| "fle (Infty s) (Fin y) = s"
| "fle (Fin x) (Infty t) = (\<not> t)"
| "fle (Fin x) (Fin y) = (x \<le> y)"

definition fgt :: "fp \<Rightarrow> fp \<Rightarrow> bool" where
  "fgt a b = flt b a"

definition fge :: "fp \<Rightarrow> fp \<Rightarrow> bool" where
  "fge a b = fle b a"

definition fadd32 :: "fp \<Rightarrow> fp \<Rightarrow> fp" where
  "fadd32 = fp_add f32"

definition fmul32 :: "fp \<Rightarrow> fp \<Rightarrow> fp" where
  "fmul32 = fp_mul f32"

definition fdiv32 :: "fp \<Rightarrow> fp \<Rightarrow> fp" where
  "fdiv32 = fp_div f32"

definition fmul64 :: "fp \<Rightarrow> fp \<Rightarrow> fp" where
  "fmul64 = fp_mul f64"

definition fdiv64 :: "fp \<Rightarrow> fp \<Rightarrow> fp" where
  "fdiv64 = fp_div f64"

text \<open>\<^verbatim>\<open>static_cast<float>\<close> of an \<^verbatim>\<open>int\<close> and of a \<^verbatim>\<open>double\<close>. A \<^verbatim>\<open>float\<close> promoted to
  \<^verbatim>\<open>double\<close> keeps its value.\<close>

definition float_of_int :: "int \<Rightarrow> fp" where
  "float_of_int n = f32 (of_int n)"

fun float_of_double :: "fp \<Rightarrow> fp" where
  "float_of_double (Fin x) = f32 x"
| "float_of_double a = a"

text \<open>\<^verbatim>\<open>std::max(a, b)\<close> on floats: \<^verbatim>\<open>(a < b) ? b : a\<close>.\<close>

definition std_max :: "fp \<Rightarrow> fp \<Rightarrow> fp" where
  "std_max a b = (if flt a b then b else a)"

text \<open>
  \<^verbatim>\<open>std::lround\<close>: to the nearest integer, halves away from zero. C leaves the result
  unspecified for a NaN or an infinity; the model returns 0 there. The program rounds the
  centre coordinates of \<^verbatim>\<open>cv::minEnclosingCircle\<close> and its radius scaled by a percentage.
\<close>

fun lround :: "fp \<Rightarrow> int" where
  "lround (Fin x) = (if 0 \<le> x then \<lfloor>x + 1 / 2\<rfloor> else - \<lfloor>- x + 1 / 2\<rfloor>)"
| "lround a = 0"

text \<open>\<^verbatim>\<open>static_cast<int>\<close> of a \<^verbatim>\<open>long\<close>: the low 32 bits, read as two's complement.\<close>

definition int_of_long :: "int \<Rightarrow> int" where
  "int_of_long n = sint (word_of_int n :: 32 word)"

text \<open>\<^verbatim>\<open>CV_PI\<close>, the \<^verbatim>\<open>double\<close> literal \<^verbatim>\<open>3.1415926535897932384626433832795\<close>.\<close>

definition CV_PI :: fp where
  "CV_PI = f64 (31415926535897932384626433832795 / 10 ^ 31)"

definition is_nan :: "fp \<Rightarrow> bool" where
  "is_nan a \<longleftrightarrow> a = NaN"

fun is_finite :: "fp \<Rightarrow> bool" where
  "is_finite (Fin x) = True"
| "is_finite a = False"

section \<open>\<^verbatim>\<open>detail::SafeDiv\<close> and \<^verbatim>\<open>detail::Clamp01\<close>\<close>

definition SafeDiv :: "fp \<Rightarrow> fp \<Rightarrow> fp" where
  "SafeDiv num den = (if fle den (Fin 0) then Fin 0 else fdiv32 num den)"

definition Clamp01 :: "fp \<Rightarrow> fp" where
  "Clamp01 v = (if flt v (Fin 0) then Fin 0 else if fgt v (Fin 1) then Fin 1 else v)"

section \<open>Configuration and results\<close>

record MorphologyConfig =
  openIterations :: int
  closeIterations :: int
  dilateIterations :: int

record ShapeFilterConfig =
  minArea :: int
  maxArea :: int
  minCircularity :: fp
  minFillRatio :: fp

record ContextRingConfig =
  enabled :: bool
  innerRadiusPercent :: int
  outerRadiusPercent :: int
  supportColor :: ColorMaskConfig
  excludeHues :: HueRangeSet
  excludeSatRange :: ChannelRange
  excludeValRange :: ChannelRange
  minSupportRatio :: fp

text \<open>
  \<^verbatim>\<open>ColorPatternConfig\<close>; its field \<^verbatim>\<open>context\<close> is \<open>contextRing\<close> here. The drawing options
  \<^verbatim>\<open>debug\<close> only steer the debug images, which are left out of the model together with the
  three images of the result.
\<close>

record ColorPatternConfig =
  centerColor :: ColorMaskConfig
  centerMorph :: MorphologyConfig
  shape :: ShapeFilterConfig
  contextRing :: ContextRingConfig

record DetectionMetrics =
  areaPx :: fp
  circularity :: fp
  centerFillRatio :: fp
  ringSupportRatio :: fp
  score :: fp
  passesArea :: bool
  passesCircularity :: bool
  passesCenterFill :: bool
  passesContext :: bool
  accepted :: bool

type_synonym cv_Point = "int \<times> int"

type_synonym cv_Rect = "int \<times> int \<times> int \<times> int"

type_synonym cv_contour = "cv_Point list"

record ColorPatternDetection =
  boxPx :: cv_Rect
  centerPx :: cv_Point
  radiusPx :: fp
  contour :: cv_contour
  metrics :: DetectionMetrics

text \<open>\<^verbatim>\<open>ColorPatternRunResult\<close>; its field \<^verbatim>\<open>score\<close> is \<open>runScore\<close> here.\<close>

record ColorPatternRunResult =
  detections :: "ColorPatternDetection list"
  acceptedCentersPx :: "cv_Point list"
  acceptedBoxesPx :: "cv_Rect list"
  rawCandidateCount :: int
  acceptedCount :: int
  acceptedRatio :: fp
  sceneMaskCoverage :: fp
  runScore :: fp

section \<open>The library under the detector\<close>

text \<open>
  The OpenCV routines whose results the detector only passes on, and \<^verbatim>\<open>std::sort\<close>, are
  parameters of the model:
  \<^item> \<open>cv_morph_open m n\<close>, \<open>cv_morph_close m n\<close>: \<^verbatim>\<open>cv::morphologyEx\<close> with \<^verbatim>\<open>MORPH_OPEN\<close>,
    \<^verbatim>\<open>MORPH_CLOSE\<close>, the 3 by 3 elliptic kernel and \<open>n\<close> iterations; \<open>cv_dilate m n\<close>:
    \<^verbatim>\<open>cv::dilate\<close> likewise;
  \<^item> \<open>cv_findContours m\<close>: the external contours (\<^verbatim>\<open>RETR_EXTERNAL\<close>, \<^verbatim>\<open>CHAIN_APPROX_SIMPLE\<close>);
  \<^item> \<open>cv_contourArea c\<close> and \<open>cv_arcLength c\<close> (closed): the \<^verbatim>\<open>double\<close> they return;
  \<^item> \<open>cv_minEnclosingCircle c\<close>: the centre and the radius, three \<^verbatim>\<open>float\<close>s;
  \<^item> \<open>cv_boundingRect c\<close>;
  \<^item> \<open>cv_disc rows cols centre radius i\<close>: whether the filled \<^verbatim>\<open>cv::circle\<close> of that centre
    and radius paints the pixel of index \<open>i\<close> in an image of that size;
  \<^item> \<open>std_sort comp xs\<close>: the vector after \<^verbatim>\<open>std::sort\<close> with the comparator \<open>comp\<close>.
\<close>

record opencv =
  cv_morph_open :: "byte Mat \<Rightarrow> int \<Rightarrow> byte Mat"
  cv_morph_close :: "byte Mat \<Rightarrow> int \<Rightarrow> byte Mat"
  cv_dilate :: "byte Mat \<Rightarrow> int \<Rightarrow> byte Mat"
  cv_findContours :: "byte Mat \<Rightarrow> cv_contour list"
  cv_contourArea :: "cv_contour \<Rightarrow> fp"
  cv_arcLength :: "cv_contour \<Rightarrow> fp"
  cv_minEnclosingCircle :: "cv_contour \<Rightarrow> (fp \<times> fp) \<times> fp"
  cv_boundingRect :: "cv_contour \<Rightarrow> cv_Rect"
  cv_disc :: "nat \<Rightarrow> nat \<Rightarrow> cv_Point \<Rightarrow> int \<Rightarrow> nat \<Rightarrow> bool"
  std_sort :: "(ColorPatternDetection \<Rightarrow> ColorPatternDetection \<Rightarrow> bool)
    \<Rightarrow> ColorPatternDetection list \<Rightarrow> ColorPatternDetection list"

text \<open>\<^verbatim>\<open>cv::circle(img, center, radius, colour, cv::FILLED)\<close>: the painted pixels take the
  colour, the others stay.\<close>

definition cv_circle :: "opencv \<Rightarrow> byte Mat \<Rightarrow> cv_Point \<Rightarrow> int \<Rightarrow> byte \<Rightarrow> byte Mat" where
  "cv_circle cv img center radius colour =
     img\<lparr>data := map (\<lambda>(i, b). if cv_disc cv (rows img) (cols img) center radius i then colour else b)
                    (zip [0..<length (data img)] (data img))\<rparr>"

section \<open>The detector\<close>

definition ApplyMorphology :: "opencv \<Rightarrow> byte Mat \<Rightarrow> MorphologyConfig \<Rightarrow> byte Mat" where
  "ApplyMorphology cv m0 cfg =
     (if Mat_empty m0 then m0
      else
        let m1 = (if openIterations cfg > 0 then cv_morph_open cv m0 (openIterations cfg) else m0);
            m2 = (if closeIterations cfg > 0 then cv_morph_close cv m1 (closeIterations cfg) else m1)
        in if dilateIterations cfg > 0 then cv_dilate cv m2 (dilateIterations cfg) else m2)"

definition ComputeCircularity :: "opencv \<Rightarrow> cv_contour \<Rightarrow> fp" where
  "ComputeCircularity cv c =
     (let area = float_of_double (cv_contourArea cv c);
          perimeter = float_of_double (cv_arcLength cv c)
      in if fle area (Fin 0) \<or> fle perimeter (Fin 0) then Fin 0
         else float_of_double
                (fdiv64 (fmul64 (fmul64 (Fin 4) CV_PI) area) (fmul32 perimeter perimeter)))"

text \<open>The two radii of the context ring (lines 486 and 487 of \<^verbatim>\<open>Find\<close>).\<close>

definition ring_inner :: "ContextRingConfig \<Rightarrow> fp \<Rightarrow> int" where
  "ring_inner ctx radius =
     max 1 (int_of_long (lround
       (fmul32 radius (fdiv32 (float_of_int (innerRadiusPercent ctx)) (Fin 100)))))"

definition ring_outer :: "ContextRingConfig \<Rightarrow> fp \<Rightarrow> int" where
  "ring_outer ctx radius =
     max (ring_inner ctx radius + 1) (int_of_long (lround
       (fmul32 radius (fdiv32 (float_of_int (outerRadiusPercent ctx)) (Fin 100)))))"

text \<open>\<^verbatim>\<open>ringMask\<close> (lines 485 to 490) and \<^verbatim>\<open>validRingMask\<close> (lines 492 to 497).\<close>

definition ringMask :: "opencv \<Rightarrow> ContextRingConfig \<Rightarrow> byte Mat \<Rightarrow> cv_Point \<Rightarrow> fp \<Rightarrow> byte Mat" where
  "ringMask cv ctx centerMask center radius =
     cv_circle cv
       (cv_circle cv (Mat_zeros centerMask) center (ring_outer ctx radius) 255)
       center (ring_inner ctx radius) 0"

definition validRingMask :: "byte Mat \<Rightarrow> byte Mat \<Rightarrow> byte Mat" where
  "validRingMask ring excludeMask =
     (if \<not> Mat_empty excludeMask then
        cv_bitwise_xor ring (cv_bitwise_and ring excludeMask)
      else ring)"

text \<open>The context branch (lines 484 to 505): \<^verbatim>\<open>m.ringSupportRatio\<close>.\<close>

definition ring_support ::
  "opencv \<Rightarrow> ContextRingConfig \<Rightarrow> byte Mat \<Rightarrow> byte Mat \<Rightarrow> byte Mat \<Rightarrow> cv_Point \<Rightarrow> fp \<Rightarrow> fp" where
  "ring_support cv ctx centerMask supportMask excludeMask center radius =
     (let valid = validRingMask (ringMask cv ctx centerMask center radius) excludeMask;
          supportInRing = cv_bitwise_and supportMask valid;
          validPx = float_of_int (cv_countNonZero valid);
          supportPx = float_of_int (cv_countNonZero supportInRing)
      in Clamp01 (SafeDiv supportPx validPx))"

text \<open>\<^verbatim>\<open>circleArea\<close> (line 480).\<close>

definition circleArea :: "fp \<Rightarrow> fp" where
  "circleArea radius = std_max (Fin 1) (fmul32 (fmul32 (float_of_double CV_PI) radius) radius)"

text \<open>The body of the loop over the contours (lines 462 to 527): \<open>None\<close> is
  \<^verbatim>\<open>continue\<close>, \<open>Some det\<close> the detection pushed.\<close>

definition candidate ::
  "opencv \<Rightarrow> ColorPatternConfig \<Rightarrow> byte Mat \<Rightarrow> byte Mat \<Rightarrow> byte Mat \<Rightarrow> cv_contour
   \<Rightarrow> ColorPatternDetection option" where
  "candidate cv config centerMask supportMask excludeMask c =
     (let area = float_of_double (cv_contourArea cv c) in
      if fle area (Fin 0) then None
      else
        let ((cx, cy), radius) = cv_minEnclosingCircle cv c;
            center = (int_of_long (lround cx), int_of_long (lround cy));
            box = cv_boundingRect cv c;
            circ = Clamp01 (ComputeCircularity cv c);
            pArea = (fge area (float_of_int (minArea (shape config)))
                     \<and> fle area (float_of_int (maxArea (shape config))));
            pCirc = fge circ (minCircularity (shape config));
            fill = Clamp01 (SafeDiv area (circleArea radius));
            pFill = fge fill (minFillRatio (shape config));
            ring = (if enabled (contextRing config)
                    then ring_support cv (contextRing config) centerMask supportMask excludeMask
                           center radius
                    else Fin 1);
            pContext = (if enabled (contextRing config)
                        then fge ring (minSupportRatio (contextRing config))
                        else True);
            shapeScore = fadd32 (fmul32 circ (f32 (55 / 100))) (fmul32 fill (f32 (45 / 100)));
            sc = (if enabled (contextRing config)
                  then Clamp01 (fadd32 (fmul32 shapeScore (f32 (60 / 100)))
                                       (fmul32 ring (f32 (40 / 100))))
                  else Clamp01 shapeScore);
            m = \<lparr>areaPx = area, circularity = circ, centerFillRatio = fill,
                 ringSupportRatio = ring, score = sc,
                 passesArea = pArea, passesCircularity = pCirc, passesCenterFill = pFill,
                 passesContext = pContext,
                 accepted = (pArea \<and> pCirc \<and> pFill \<and> pContext)\<rparr>
        in Some \<lparr>boxPx = box, centerPx = center, radiusPx = radius, contour = c, metrics = m\<rparr>)"

text \<open>The comparator of \<^verbatim>\<open>std::sort\<close> (lines 530 to 535).\<close>

definition detection_before :: "ColorPatternDetection \<Rightarrow> ColorPatternDetection \<Rightarrow> bool" where
  "detection_before a b =
     (if accepted (metrics a) \<noteq> accepted (metrics b)
      then accepted (metrics a) \<and> \<not> accepted (metrics b)
      else fgt (score (metrics a)) (score (metrics b)))"

text \<open>The loop over the sorted detections (lines 537 to 558), without the drawing.\<close>

definition tally :: "ColorPatternRunResult \<Rightarrow> ColorPatternDetection \<Rightarrow> ColorPatternRunResult" where
  "tally result det =
     (if accepted (metrics det) then
        result\<lparr>acceptedCentersPx := acceptedCentersPx result @ [centerPx det],
               acceptedBoxesPx := acceptedBoxesPx result @ [boxPx det],
               acceptedCount := acceptedCount result + 1,
               runScore := std_max (runScore result) (score (metrics det))\<rparr>
      else result)"

text \<open>
  \<^verbatim>\<open>Find\<close>, from the HSV image that its first lines compute from the scene with
  \<^verbatim>\<open>cv::cvtColor\<close> (an image of the scene's size, \<^verbatim>\<open>CV_8UC3\<close> for an 8-bit scene). The
  three parts are the masks (up to line 447), the contours and their detections (up to line
  527) and the result.
\<close>

definition Find_masks ::
  "opencv \<Rightarrow> ColorPatternConfig \<Rightarrow> hsv_pixel Mat \<Rightarrow> error + (byte Mat \<times> byte Mat \<times> byte Mat)" where
  "Find_masks cv config hsv =
     (if Mat_empty hsv then Inl (invalid_argument ''Find received empty scene image.'')
      else
        case BuildMask hsv (centerColor config) of
          Inl e \<Rightarrow> Inl e
        | Inr centerMask0 \<Rightarrow>
            let centerMask = ApplyMorphology cv centerMask0 (centerMorph config) in
            if enabled (contextRing config) then
              (case BuildMask hsv (supportColor (contextRing config)) of
                 Inl e \<Rightarrow> Inl e
               | Inr supportMask \<Rightarrow>
                   if \<not> Empty (excludeHues (contextRing config)) then
                     (case BuildExcludeMask hsv (excludeHues (contextRing config))
                             (excludeSatRange (contextRing config))
                             (excludeValRange (contextRing config)) of
                        Inl e \<Rightarrow> Inl e
                      | Inr excludeMask \<Rightarrow> Inr (centerMask, supportMask, excludeMask))
                   else Inr (centerMask, supportMask, Mat_default))
            else Inr (centerMask, Mat_default, Mat_default))"

definition Find_candidates ::
  "opencv \<Rightarrow> ColorPatternConfig \<Rightarrow> byte Mat \<times> byte Mat \<times> byte Mat \<Rightarrow> ColorPatternDetection list" where
  "Find_candidates cv config masks =
     (case masks of (centerMask, supportMask, excludeMask) \<Rightarrow>
        List.map_filter (candidate cv config centerMask supportMask excludeMask)
          (cv_findContours cv centerMask))"

definition Find_result ::
  "opencv \<Rightarrow> ColorPatternConfig \<Rightarrow> byte Mat \<times> byte Mat \<times> byte Mat \<Rightarrow> ColorPatternRunResult" where
  "Find_result cv config masks =
     (case masks of (centerMask, supportMask, excludeMask) \<Rightarrow>
        let contours = cv_findContours cv centerMask;
            result0 = \<lparr>detections = [], acceptedCentersPx = [], acceptedBoxesPx = [],
                       rawCandidateCount = int (length contours), acceptedCount = 0,
                       acceptedRatio = Fin 0,
                       sceneMaskCoverage =
                         SafeDiv (float_of_int (cv_countNonZero centerMask))
                                 (float_of_int (int (rows centerMask) * int (cols centerMask))),
                       runScore = Fin 0\<rparr>;
            result1 = result0\<lparr>detections :=
                        std_sort cv detection_before (Find_candidates cv config masks)\<rparr>;
            result2 = foldl tally result1 (detections result1)
        in result2\<lparr>acceptedRatio :=
             SafeDiv (float_of_int (acceptedCount result2))
                     (float_of_int (max 1 (rawCandidateCount result2)))\<rparr>)"

definition Find :: "opencv \<Rightarrow> ColorPatternConfig \<Rightarrow> hsv_pixel Mat \<Rightarrow> error + ColorPatternRunResult" where
  "Find cv config hsv =
     (case Find_masks cv config hsv of
        Inl e \<Rightarrow> Inl e
      | Inr masks \<Rightarrow> Inr (Find_result cv config masks))"

subsection \<open>What the detector expects of the library\<close>

text \<open>The masks of a run that does not throw, and its contours.\<close>

definition masks_of :: "opencv \<Rightarrow> ColorPatternConfig \<Rightarrow> hsv_pixel Mat \<Rightarrow> byte Mat \<times> byte Mat \<times> byte Mat" where
  "masks_of cv config hsv =
     (case Find_masks cv config hsv of
        Inr masks \<Rightarrow> masks
      | Inl e \<Rightarrow> (Mat_default, Mat_default, Mat_default))"

definition contours_of :: "opencv \<Rightarrow> ColorPatternConfig \<Rightarrow> hsv_pixel Mat \<Rightarrow> cv_contour list" where
  "contours_of cv config hsv = cv_findContours cv (fst (masks_of cv config hsv))"

text \<open>
  \<^verbatim>\<open>std::sort\<close> returns a permutation of its input in which no element is before one
  that the comparator puts before it. The two predicates say that the call of a run did
  each of the two.
\<close>

definition permuted_by_library :: "opencv \<Rightarrow> ColorPatternConfig \<Rightarrow> hsv_pixel Mat \<Rightarrow> bool" where
  "permuted_by_library cv config hsv \<longleftrightarrow>
     mset (std_sort cv detection_before (Find_candidates cv config (masks_of cv config hsv)))
       = mset (Find_candidates cv config (masks_of cv config hsv))"

definition sorted_by_library :: "opencv \<Rightarrow> ColorPatternConfig \<Rightarrow> hsv_pixel Mat \<Rightarrow> bool" where
  "sorted_by_library cv config hsv \<longleftrightarrow>
     sorted_wrt (\<lambda>a b. \<not> detection_before b a)
       (std_sort cv detection_before (Find_candidates cv config (masks_of cv config hsv)))"

text \<open>
  The measures OpenCV takes of a contour of an image: an area that is a finite number
  from 0 to \<open>2^62\<close> (the coordinates are below \<open>2^31\<close>), a perimeter that is a number, a
  centre and a radius that are finite.
\<close>

definition measured_ok :: "opencv \<Rightarrow> cv_contour \<Rightarrow> bool" where
  "measured_ok cv c \<longleftrightarrow>
     (case cv_contourArea cv c of Fin a \<Rightarrow> 0 \<le> a \<and> a \<le> 2 ^ 62 | other \<Rightarrow> False)
     \<and> \<not> is_nan (cv_arcLength cv c)
     \<and> (case cv_minEnclosingCircle cv c of ((cx, cy), radius) \<Rightarrow>
          is_finite cx \<and> is_finite cy \<and> is_finite radius)"

definition measures_ok :: "opencv \<Rightarrow> ColorPatternConfig \<Rightarrow> hsv_pixel Mat \<Rightarrow> bool" where
  "measures_ok cv config hsv \<longleftrightarrow> list_all (measured_ok cv) (contours_of cv config hsv)"

text \<open>
  The points of a contour of \<^verbatim>\<open>cv::findContours\<close> are pixels (\<^verbatim>\<open>cv::Point\<close> has \<^verbatim>\<open>int\<close>
  coordinates), so a segment between two of them has length 0 or at least 1, and the
  perimeter \<^verbatim>\<open>cv::arcLength\<close> returns, the sum of these lengths, is 0 or at least 1.
\<close>

definition pixel_perimeter :: "fp \<Rightarrow> bool" where
  "pixel_perimeter p \<longleftrightarrow> p = Fin 0 \<or> fle (Fin 1) p"

definition perimeters_ok :: "opencv \<Rightarrow> ColorPatternConfig \<Rightarrow> hsv_pixel Mat \<Rightarrow> bool" where
  "perimeters_ok cv config hsv \<longleftrightarrow>
     list_all (\<lambda>c. pixel_perimeter (cv_arcLength cv c)) (contours_of cv config hsv)"

text \<open>The morphology keeps the size of the mask, and an image has fewer than \<open>2^31\<close>
  pixels.\<close>

definition sizes_ok :: "opencv \<Rightarrow> ColorPatternConfig \<Rightarrow> hsv_pixel Mat \<Rightarrow> bool" where
  "sizes_ok cv config hsv \<longleftrightarrow>
     length (data (fst (masks_of cv config hsv))) = length (data hsv)
     \<and> length (data hsv) < 2 ^ 31"

subsection \<open>The ranking as the specification describes it\<close>

text \<open>\<open>m\<close> is the maximum score among the accepted detections of \<open>ds\<close>.\<close>

definition max_accepted_score :: "ColorPatternDetection list \<Rightarrow> fp \<Rightarrow> bool" where
  "max_accepted_score ds m \<longleftrightarrow>
     (\<exists>d \<in> set ds. accepted (metrics d) \<and> score (metrics d) = m)
     \<and> (\<forall>d \<in> set ds. accepted (metrics d) \<longrightarrow> fle (score (metrics d)) m)"

text \<open>The scores of \<open>ds\<close> do not increase along the list.\<close>

definition scores_descend :: "ColorPatternDetection list \<Rightarrow> bool" where
  "scores_descend ds \<longleftrightarrow> sorted_wrt (\<lambda>a b. fge (score (metrics a)) (score (metrics b))) ds"

subsection \<open>The context ring as the specification describes it\<close>







section \<open>\<^verbatim>\<open>ValidateConfig\<close>\<close>

text \<open>
  \<^verbatim>\<open>errorOut\<close> is a pointer that may be null: \<open>None\<close> is the null pointer, \<open>Some s\<close> a
  string holding \<open>s\<close>. Every function returns its \<^verbatim>\<open>bool\<close> and the string after the call.
\<close>

definition setError :: "string option \<Rightarrow> string \<Rightarrow> bool \<times> string option" where
  "setError errorOut msg = (False, (case errorOut of None \<Rightarrow> None | Some old \<Rightarrow> Some msg))"

definition validateRange :: "string option \<Rightarrow> ChannelRange \<Rightarrow> string \<Rightarrow> bool \<times> string option" where
  "validateRange errorOut r name =
     (if minValue r < 0 \<or> minValue r > 255 \<or> maxValue r < 0 \<or> maxValue r > 255 then
        setError errorOut (name @ '' must be within [0,255].'')
      else if minValue r > maxValue r then
        setError errorOut (name @ '' must satisfy minValue <= maxValue.'')
      else (True, errorOut))"

definition ValidateConfig :: "ColorPatternConfig \<Rightarrow> string option \<Rightarrow> bool \<times> string option" where
  "ValidateConfig cfg errorOut =
     (let r1 = validateRange errorOut (satRange (centerColor cfg)) ''centerColor.satRange'';
          r2 = validateRange errorOut (valRange (centerColor cfg)) ''centerColor.valRange'';
          r3 = validateRange errorOut (satRange (supportColor (contextRing cfg)))
                 ''context.supportColor.satRange'';
          r4 = validateRange errorOut (valRange (supportColor (contextRing cfg)))
                 ''context.supportColor.valRange'';
          r5 = validateRange errorOut (excludeSatRange (contextRing cfg)) ''context.excludeSatRange'';
          r6 = validateRange errorOut (excludeValRange (contextRing cfg)) ''context.excludeValRange''
      in
      if Empty (hues (centerColor cfg)) then setError errorOut ''centerColor.hues is empty.''
      else if \<not> fst r1 then (False, snd r1)
      else if \<not> fst r2 then (False, snd r2)
      else if minArea (shape cfg) < 1 then setError errorOut ''shape.minArea must be >= 1.''
      else if maxArea (shape cfg) < minArea (shape cfg) then
        setError errorOut ''shape.maxArea must be >= shape.minArea.''
      else if flt (minCircularity (shape cfg)) (Fin 0) \<or> fgt (minCircularity (shape cfg)) (Fin 1) then
        setError errorOut ''shape.minCircularity must be in [0,1].''
      else if flt (minFillRatio (shape cfg)) (Fin 0) \<or> fgt (minFillRatio (shape cfg)) (Fin 1) then
        setError errorOut ''shape.minFillRatio must be in [0,1].''
      else if enabled (contextRing cfg) then
        (if innerRadiusPercent (contextRing cfg) < 1
            \<or> outerRadiusPercent (contextRing cfg) \<le> innerRadiusPercent (contextRing cfg) then
           setError errorOut ''context ring radius percents must satisfy: 1 <= inner < outer.''
         else if flt (minSupportRatio (contextRing cfg)) (Fin 0)
            \<or> fgt (minSupportRatio (contextRing cfg)) (Fin 1) then
           setError errorOut ''context.minSupportRatio must be in [0,1].''
         else if \<not> fst r3 then (False, snd r3)
         else if \<not> fst r4 then (False, snd r4)
         else if \<not> fst r5 then (False, snd r5)
         else if \<not> fst r6 then (False, snd r6)
         else (True, errorOut))
      else (True, errorOut))"

subsection \<open>The rules of the specification\<close>

text \<open>
  The rules in the order the specification lists them, what each demands, and the field
  or rule each is named after. The two demands on the ring radii are one rule, as they
  share one message.
\<close>

datatype rule =
  CenterHues | CenterSat | CenterVal | MinArea | MaxArea | MinCircularity | MinFillRatio
  | RingRadii | MinSupportRatio | SupportSat | SupportVal | ExcludeSat | ExcludeVal

definition rules_in_order :: "rule list" where
  "rules_in_order =
     [CenterHues, CenterSat, CenterVal, MinArea, MaxArea, MinCircularity, MinFillRatio,
      RingRadii, MinSupportRatio, SupportSat, SupportVal, ExcludeSat, ExcludeVal]"

definition range_ok :: "ChannelRange \<Rightarrow> bool" where
  "range_ok r \<longleftrightarrow> 0 \<le> minValue r \<and> minValue r \<le> maxValue r \<and> maxValue r \<le> 255"

definition in_unit_interval :: "fp \<Rightarrow> bool" where
  "in_unit_interval x \<longleftrightarrow> fle (Fin 0) x \<and> fle x (Fin 1)"

fun rule_holds :: "ColorPatternConfig \<Rightarrow> rule \<Rightarrow> bool" where
  "rule_holds cfg CenterHues = (hues (centerColor cfg) \<noteq> [])"
| "rule_holds cfg CenterSat = range_ok (satRange (centerColor cfg))"
| "rule_holds cfg CenterVal = range_ok (valRange (centerColor cfg))"
| "rule_holds cfg MinArea = (minArea (shape cfg) \<ge> 1)"
| "rule_holds cfg MaxArea = (maxArea (shape cfg) \<ge> minArea (shape cfg))"
| "rule_holds cfg MinCircularity = in_unit_interval (minCircularity (shape cfg))"
| "rule_holds cfg MinFillRatio = in_unit_interval (minFillRatio (shape cfg))"
| "rule_holds cfg RingRadii =
     (enabled (contextRing cfg) \<longrightarrow>
        innerRadiusPercent (contextRing cfg) \<ge> 1
        \<and> outerRadiusPercent (contextRing cfg) > innerRadiusPercent (contextRing cfg))"
| "rule_holds cfg MinSupportRatio =
     (enabled (contextRing cfg) \<longrightarrow> in_unit_interval (minSupportRatio (contextRing cfg)))"
| "rule_holds cfg SupportSat =
     (enabled (contextRing cfg) \<longrightarrow> range_ok (satRange (supportColor (contextRing cfg))))"
| "rule_holds cfg SupportVal =
     (enabled (contextRing cfg) \<longrightarrow> range_ok (valRange (supportColor (contextRing cfg))))"
| "rule_holds cfg ExcludeSat =
     (enabled (contextRing cfg) \<longrightarrow> range_ok (excludeSatRange (contextRing cfg)))"
| "rule_holds cfg ExcludeVal =
     (enabled (contextRing cfg) \<longrightarrow> range_ok (excludeValRange (contextRing cfg)))"

definition first_failing :: "ColorPatternConfig \<Rightarrow> rule option" where
  "first_failing cfg = find (\<lambda>r. \<not> rule_holds cfg r) rules_in_order"

fun rule_name :: "rule \<Rightarrow> string" where
  "rule_name CenterHues = ''centerColor.hues''"
| "rule_name CenterSat = ''centerColor.satRange''"
| "rule_name CenterVal = ''centerColor.valRange''"
| "rule_name MinArea = ''shape.minArea''"
| "rule_name MaxArea = ''shape.maxArea''"
| "rule_name MinCircularity = ''shape.minCircularity''"
| "rule_name MinFillRatio = ''shape.minFillRatio''"
| "rule_name RingRadii = ''context ring radius percents''"
| "rule_name MinSupportRatio = ''context.minSupportRatio''"
| "rule_name SupportSat = ''context.supportColor.satRange''"
| "rule_name SupportVal = ''context.supportColor.valRange''"
| "rule_name ExcludeSat = ''context.excludeSatRange''"
| "rule_name ExcludeVal = ''context.excludeValRange''"

text \<open>A run of \<^verbatim>\<open>ValidateConfig\<close> reports the rule \<open>r\<close>: it returns false, and the message
  it leaves in a non-null \<^verbatim>\<open>errorOut\<close> starts with the name of \<open>r\<close>.\<close>

definition reports :: "bool \<times> string option \<Rightarrow> string option \<Rightarrow> rule \<Rightarrow> bool" where
  "reports res errorOut r \<longleftrightarrow>
     \<not> fst res \<and>
     (case errorOut of
        None \<Rightarrow> snd res = None
      | Some old \<Rightarrow> (case snd res of None \<Rightarrow> False | Some msg \<Rightarrow> take (length (rule_name r)) msg = rule_name r))"

text \<open>A run reports the first failing rule, or succeeds and leaves \<^verbatim>\<open>errorOut\<close> as it
  was when every rule holds.\<close>

definition first_failing_reported :: "ColorPatternConfig \<Rightarrow> string option \<Rightarrow> bool" where
  "first_failing_reported cfg eo \<longleftrightarrow>
     (case first_failing cfg of
        None \<Rightarrow> ValidateConfig cfg eo = (True, eo)
      | Some r \<Rightarrow> reports (ValidateConfig cfg eo) eo r)"

definition thresholds_not_nan :: "ColorPatternConfig \<Rightarrow> bool" where
  "thresholds_not_nan cfg \<longleftrightarrow>
     \<not> is_nan (minCircularity (shape cfg)) \<and> \<not> is_nan (minFillRatio (shape cfg))
     \<and> (enabled (contextRing cfg) \<longrightarrow> \<not> is_nan (minSupportRatio (contextRing cfg)))"

section \<open>The default configuration and a small scene\<close>

text \<open>\<^verbatim>\<open>BuildDefaultPatternConfig\<close> of \<^verbatim>\<open>ChromaCore.cpp\<close>.\<close>

definition BuildDefaultPatternConfig :: ColorPatternConfig where
  "BuildDefaultPatternConfig =
     \<lparr>centerColor =
        \<lparr>hues = HueRangeSet_of [\<lparr>minHue = 16, maxHue = 32\<rparr>],
         satRange = \<lparr>minValue = 50, maxValue = 125\<rparr>,
         valRange = \<lparr>minValue = 85, maxValue = 255\<rparr>\<rparr>,
      centerMorph = \<lparr>openIterations = 5, closeIterations = 3, dilateIterations = 1\<rparr>,
      shape = \<lparr>minArea = 20, maxArea = 800,
               minCircularity = f32 (75 / 100), minFillRatio = f32 (68 / 100)\<rparr>,
      contextRing =
        \<lparr>enabled = True, innerRadiusPercent = 105, outerRadiusPercent = 225,
         supportColor =
           \<lparr>hues = HueRangeSet_of [\<lparr>minHue = 0, maxHue = 179\<rparr>],
            satRange = \<lparr>minValue = 0, maxValue = 255\<rparr>,
            valRange = \<lparr>minValue = 120, maxValue = 255\<rparr>\<rparr>,
         excludeHues = HueRangeSet_of [\<lparr>minHue = 52, maxHue = 68\<rparr>, \<lparr>minHue = 24, maxHue = 48\<rparr>],
         excludeSatRange = \<lparr>minValue = 0, maxValue = 255\<rparr>,
         excludeValRange = \<lparr>minValue = 120, maxValue = 255\<rparr>,
         minSupportRatio = f32 (42 / 100)\<rparr>\<rparr>"

text \<open>
  A scene of 5 by 5 pixels: a square blob of the centre colour (\<open>C\<close>) on a bright ground
  (\<open>W\<close>), with one pixel of an excluded hue (\<open>E\<close>) and two dark pixels (\<open>D\<close>).
\<close>

definition ex_hsv :: "hsv_pixel Mat" where
  "ex_hsv =
     (let W = (0, 0, 255); C = (20, 100, 200); E = (60, 10, 200); D = (0, 0, 0)
      in \<lparr>rows = 5, cols = 5, mtype = CV_8UC3,
          data = [W, W, E, W, W,
                  W, C, C, C, D,
                  W, C, C, C, W,
                  W, C, C, C, W,
                  W, W, W, W, D]\<rparr>)"

text \<open>The default configuration with the shape limits lowered to the size of that blob,
  and the same without the context ring.\<close>

definition ex_config :: ColorPatternConfig where
  "ex_config = BuildDefaultPatternConfig
     \<lparr>shape := \<lparr>minArea = 2, maxArea = 800,
                 minCircularity = f32 (75 / 100), minFillRatio = f32 (60 / 100)\<rparr>\<rparr>"

definition ex_config_plain :: ColorPatternConfig where
  "ex_config_plain = ex_config\<lparr>contextRing := (contextRing ex_config)\<lparr>enabled := False\<rparr>\<rparr>"

text \<open>
  A library for that scene: the morphology leaves the mask as it is; a mask with a
  foreground pixel has three contours, a thin triangle, the outline of the blob and a
  single point, with the measures of the table; a disc is the pixels within the radius of
  the centre; the sort is by insertion.
\<close>

definition ex_triangle :: cv_contour where
  "ex_triangle = [(0, 0), (4, 0), (4, 1)]"

definition ex_square :: cv_contour where
  "ex_square = [(1, 1), (1, 3), (3, 3), (3, 1)]"

definition ex_point :: cv_contour where
  "ex_point = [(4, 4)]"

fun insert_before :: "('a \<Rightarrow> 'a \<Rightarrow> bool) \<Rightarrow> 'a \<Rightarrow> 'a list \<Rightarrow> 'a list" where
  "insert_before precedes x [] = [x]"
| "insert_before precedes x (y # ys) =
     (if precedes y x then y # insert_before precedes x ys else x # y # ys)"

definition insertion_sort :: "('a \<Rightarrow> 'a \<Rightarrow> bool) \<Rightarrow> 'a list \<Rightarrow> 'a list" where
  "insertion_sort precedes xs = foldr (insert_before precedes) xs []"

definition ex_cv :: opencv where
  "ex_cv =
     \<lparr>cv_morph_open = (\<lambda>m n. m),
      cv_morph_close = (\<lambda>m n. m),
      cv_dilate = (\<lambda>m n. m),
      cv_findContours = (\<lambda>m. if cv_countNonZero m = 0 then [] else [ex_triangle, ex_square, ex_point]),
      cv_contourArea = (\<lambda>c. if c = ex_square then Fin 4 else if c = ex_triangle then Fin 2 else Fin 0),
      cv_arcLength = (\<lambda>c. if c = ex_square then Fin 8 else if c = ex_triangle then Fin (73 / 8) else Fin 0),
      cv_minEnclosingCircle =
        (\<lambda>c. if c = ex_square then ((Fin 2, Fin 2), Fin (11863283 / 8388608))
              else if c = ex_triangle then ((Fin 2, Fin (1 / 2)), Fin (33 / 16))
              else ((Fin 4, Fin 4), Fin 0)),
      cv_boundingRect =
        (\<lambda>c. if c = ex_square then (1, 1, 3, 3)
              else if c = ex_triangle then (0, 0, 5, 2)
              else (4, 4, 1, 1)),
      cv_disc = (\<lambda>rows cols center radius i.
        (int (i mod cols) - fst center)\<^sup>2 + (int (i div cols) - snd center)\<^sup>2 \<le> radius\<^sup>2),
      std_sort = insertion_sort\<rparr>"

text \<open>The three masks of that scene: the blob, the bright pixels, the excluded pixel.\<close>

definition ex_centerMask :: "byte Mat" where
  "ex_centerMask = \<lparr>rows = 5, cols = 5, mtype = CV_8U,
     data = [0, 0, 0, 0, 0,
             0, 255, 255, 255, 0,
             0, 255, 255, 255, 0,
             0, 255, 255, 255, 0,
             0, 0, 0, 0, 0]\<rparr>"

definition ex_supportMask :: "byte Mat" where
  "ex_supportMask = \<lparr>rows = 5, cols = 5, mtype = CV_8U,
     data = [255, 255, 255, 255, 255,
             255, 255, 255, 255, 0,
             255, 255, 255, 255, 255,
             255, 255, 255, 255, 255,
             255, 255, 255, 255, 0]\<rparr>"

definition ex_excludeMask :: "byte Mat" where
  "ex_excludeMask = \<lparr>rows = 5, cols = 5, mtype = CV_8U,
     data = [0, 0, 255, 0, 0,
             0, 0, 0, 0, 0,
             0, 0, 0, 0, 0,
             0, 0, 0, 0, 0,
             0, 0, 0, 0, 0]\<rparr>"

text \<open>The results of \<^verbatim>\<open>Find\<close> on that scene, with and without the context ring.\<close>

definition ex_result :: ColorPatternRunResult where
  "ex_result = Find_result ex_cv ex_config (ex_centerMask, ex_supportMask, ex_excludeMask)"

definition ex_result_plain :: ColorPatternRunResult where
  "ex_result_plain = Find_result ex_cv ex_config_plain (ex_centerMask, Mat_default, Mat_default)"

text \<open>A row of four pixels and a colour with a hue range that wraps around and a
  saturation range given out of range and reversed.\<close>

definition ex_wrap_hsv :: "hsv_pixel Mat" where
  "ex_wrap_hsv = \<lparr>rows = 1, cols = 4, mtype = CV_8UC3,
     data = [(5, 100, 200), (100, 100, 200), (175, 20, 200), (179, 255, 0)]\<rparr>"

definition ex_wrap_color :: ColorMaskConfig where
  "ex_wrap_color =
     \<lparr>hues = HueRangeSet_of [\<lparr>minHue = 170, maxHue = 10\<rparr>],
      satRange = \<lparr>minValue = 300, maxValue = 50\<rparr>,
      valRange = \<lparr>minValue = 0, maxValue = 255\<rparr>\<rparr>"

text \<open>The default configuration with a NaN for \<^verbatim>\<open>shape.minCircularity\<close>, with the two
  areas swapped, and with the two ring percents swapped.\<close>

definition ex_config_nan :: ColorPatternConfig where
  "ex_config_nan = BuildDefaultPatternConfig
     \<lparr>shape := (shape BuildDefaultPatternConfig)\<lparr>minCircularity := NaN\<rparr>\<rparr>"

definition ex_config_areas :: ColorPatternConfig where
  "ex_config_areas = BuildDefaultPatternConfig
     \<lparr>shape := (shape BuildDefaultPatternConfig)\<lparr>minArea := 800, maxArea := 20\<rparr>\<rparr>"

definition ex_config_radii :: ColorPatternConfig where
  "ex_config_radii = BuildDefaultPatternConfig
     \<lparr>contextRing := (contextRing BuildDefaultPatternConfig)
        \<lparr>innerRadiusPercent := 225, outerRadiusPercent := 105\<rparr>\<rparr>"

section \<open>The mask builder meets its contract\<close>

lemma data_cv_bitwise_or:
  "data (cv_bitwise_or a b) = map2 (OR) (data a) (data b)"
  by (simp add: cv_bitwise_or_def cv_bitwise_def)

lemma length_range_part:
  "length (data (range_part hsv a b c d r)) = length (data hsv)"
  by (simp add: range_part_def cv_inRange_def data_cv_bitwise_or Let_def)

lemma length_fold_parts:
  "length (data acc) = n \<Longrightarrow> (\<And>r. length (data (part r)) = n) \<Longrightarrow>
   length (data (foldl (\<lambda>accumulated r. cv_bitwise_or accumulated (part r)) acc rs)) = n"
  by (induction rs arbitrary: acc) (simp_all add: data_cv_bitwise_or)

lemma header_fold_parts:
  "rows acc = r \<Longrightarrow> cols acc = c \<Longrightarrow>
   rows (foldl (\<lambda>accumulated r. cv_bitwise_or accumulated (part r)) acc rs) = r \<and>
   cols (foldl (\<lambda>accumulated r. cv_bitwise_or accumulated (part r)) acc rs) = c"
  by (induction rs arbitrary: acc) (simp_all add: cv_bitwise_or_def cv_bitwise_def)

lemma nth_fold_parts:
  "length (data acc) = n \<Longrightarrow> (\<And>r. length (data (part r)) = n) \<Longrightarrow> i < n \<Longrightarrow>
   (data (foldl (\<lambda>accumulated r. cv_bitwise_or accumulated (part r)) acc rs) ! i \<noteq> 0) \<longleftrightarrow>
   (data acc ! i \<noteq> 0 \<or> list_ex (\<lambda>r. data (part r) ! i \<noteq> 0) rs)"
proof (induction rs arbitrary: acc)
  case Nil
  then show ?case by simp
next
  case (Cons r rs)
  have len: "length (data (cv_bitwise_or acc (part r))) = n"
    using Cons.prems by (simp add: data_cv_bitwise_or)
  have here: "data (cv_bitwise_or acc (part r)) ! i = data acc ! i OR data (part r) ! i"
    using Cons.prems by (simp add: data_cv_bitwise_or)
  show ?case
    using Cons.IH [OF len Cons.prems(2) Cons.prems(3)]
    by (auto simp add: here or_eq_0_iff)
qed

lemma in_bounds_clamp:
  "in_bounds x (if std_clamp (minValue c) 0 255 > std_clamp (maxValue c) 0 255
                then std_clamp (maxValue c) 0 255 else std_clamp (minValue c) 0 255)
               (if std_clamp (minValue c) 0 255 > std_clamp (maxValue c) 0 255
                then std_clamp (minValue c) 0 255 else std_clamp (maxValue c) 0 255)
   \<longleftrightarrow> in_channel_range c (uint x)"
  by (auto simp add: in_bounds_def in_channel_range_def effective_range_def std_clamp_def Let_def)

lemma effective_range_valid:
  "0 \<le> minValue c \<Longrightarrow> minValue c \<le> maxValue c \<Longrightarrow> maxValue c \<le> 255 \<Longrightarrow>
   effective_range c = (minValue c, maxValue c)"
  by (simp add: effective_range_def Let_def)

lemma range_part_nth:
  "i < length (data hsv) \<Longrightarrow> data hsv ! i = (h, s, v) \<Longrightarrow>
   (data (range_part hsv sl sh vl vh r) ! i \<noteq> 0) \<longleftrightarrow>
   (hue_in_range r (uint h) \<and> in_bounds s sl sh \<and> in_bounds v vl vh)"
  by (auto simp add: range_part_def cv_inRange_def data_cv_bitwise_or Let_def inRange_px_def
        hue_in_range_def in_bounds_def or_eq_0_iff)


lemma BuildMask_nonempty:
  assumes ne: "\<not> Mat_empty hsv" and ty: "mtype hsv = CV_8UC3"
  shows "\<exists>m. BuildMask hsv cfg = Inr m \<and> length (data m) = length (data hsv) \<and>
           rows m = rows hsv \<and> cols m = cols hsv \<and>
           (\<forall>i < length (data hsv). foreground (data m ! i) \<longleftrightarrow> spec_foreground cfg (data hsv ! i))"
proof (cases "hues cfg = []")
  case True
  then show ?thesis using ne ty
    by (simp add: BuildMask_def HueRangeSet_BuildMask_def Mat_zeros_def foreground_def
          spec_foreground_def hue_in_union_def split: prod.splits)
next
  case False
  define sl where "sl = (if std_clamp (minValue (satRange cfg)) 0 255 > std_clamp (maxValue (satRange cfg)) 0 255
     then std_clamp (maxValue (satRange cfg)) 0 255 else std_clamp (minValue (satRange cfg)) 0 255)"
  define sh where "sh = (if std_clamp (minValue (satRange cfg)) 0 255 > std_clamp (maxValue (satRange cfg)) 0 255
     then std_clamp (minValue (satRange cfg)) 0 255 else std_clamp (maxValue (satRange cfg)) 0 255)"
  define vl where "vl = (if std_clamp (minValue (valRange cfg)) 0 255 > std_clamp (maxValue (valRange cfg)) 0 255
     then std_clamp (maxValue (valRange cfg)) 0 255 else std_clamp (minValue (valRange cfg)) 0 255)"
  define vh where "vh = (if std_clamp (minValue (valRange cfg)) 0 255 > std_clamp (maxValue (valRange cfg)) 0 255
     then std_clamp (minValue (valRange cfg)) 0 255 else std_clamp (maxValue (valRange cfg)) 0 255)"
  define m where "m = foldl (\<lambda>accumulated r. cv_bitwise_or accumulated (range_part hsv sl sh vl vh r))
                (Mat_zeros hsv) (hues cfg)"
  have eq: "BuildMask hsv cfg = Inr m"
    using ne ty False
    by (simp add: BuildMask_def HueRangeSet_BuildMask_def Let_def m_def sl_def sh_def vl_def vh_def)
  have len0: "length (data (Mat_zeros hsv)) = length (data hsv)"
    by (simp add: Mat_zeros_def)
  have len: "length (data m) = length (data hsv)"
    unfolding m_def by (rule length_fold_parts [OF len0 length_range_part])
  have hdr: "rows m = rows hsv \<and> cols m = cols hsv"
    unfolding m_def by (rule header_fold_parts) (simp_all add: Mat_zeros_def)
  have px: "foreground (data m ! i) \<longleftrightarrow> spec_foreground cfg (data hsv ! i)"
    if i: "i < length (data hsv)" for i
  proof -
    obtain h s v where p: "data hsv ! i = (h, s, v)" by (cases "data hsv ! i")
    have s: "in_bounds s sl sh \<longleftrightarrow> in_channel_range (satRange cfg) (uint s)"
      using in_bounds_clamp [of s "satRange cfg"] by (simp add: sl_def sh_def)
    have v: "in_bounds v vl vh \<longleftrightarrow> in_channel_range (valRange cfg) (uint v)"
      using in_bounds_clamp [of v "valRange cfg"] by (simp add: vl_def vh_def)
    have "foreground (data m ! i) \<longleftrightarrow>
          list_ex (\<lambda>r. data (range_part hsv sl sh vl vh r) ! i \<noteq> 0) (hues cfg)"
      unfolding m_def foreground_def
      using nth_fold_parts [where part = "range_part hsv sl sh vl vh" and rs = "hues cfg",
              OF len0 length_range_part i]
      by (simp add: Mat_zeros_def i)
    also have "\<dots> \<longleftrightarrow> list_ex (\<lambda>r. hue_in_range r (uint h) \<and> in_bounds s sl sh \<and> in_bounds v vl vh) (hues cfg)"
      using range_part_nth [OF i p] by simp
    also have "\<dots> \<longleftrightarrow> spec_foreground cfg (data hsv ! i)"
      by (auto simp add: p spec_foreground_def hue_in_union_def s v list_ex_iff)
    finally show ?thesis .
  qed
  show ?thesis using eq len hdr px by blast
qed

lemma BuildMask_no_hues:
  "mtype hsv = CV_8UC3 \<or> Mat_empty hsv \<Longrightarrow> hues cfg = [] \<Longrightarrow>
   \<exists>m. BuildMask hsv cfg = Inr m \<and> list_all (\<lambda>b. \<not> foreground b) (data m)"
  by (auto simp add: BuildMask_def HueRangeSet_BuildMask_def Mat_default_def Mat_zeros_def
        foreground_def list_all_iff)

text \<open>
  C5. For every HSV frame and colour specification, \<^verbatim>\<open>BuildMask\<close> returns a mask of the
  frame's size in which a pixel is foreground exactly when its hue lies in the union of
  the hue ranges (a range with \<open>minHue > maxHue\<close> being the union of 0 to \<open>maxHue\<close> and
  \<open>minHue\<close> to 179) and its saturation and value lie in their channel ranges, the bounds of
  which are clamped to 0..255 and swapped if reversed; with no hue range every pixel is
  background.
\<close>

theorem BuildMask_foreground:
  assumes "Mat_wf hsv" and "mtype hsv = CV_8UC3"
  shows "\<exists>m. BuildMask hsv cfg = Inr m \<and> length (data m) = length (data hsv) \<and>
           (\<forall>i < length (data hsv). foreground (data m ! i) \<longleftrightarrow> spec_foreground cfg (data hsv ! i)) \<and>
           (hues cfg = [] \<longrightarrow> list_all (\<lambda>b. \<not> foreground b) (data m))"
proof (cases "Mat_empty hsv")
  case True
  with assms(1) have "data hsv = []" by (auto simp add: Mat_empty_def Mat_wf_def)
  with True show ?thesis
    by (simp add: BuildMask_def HueRangeSet_BuildMask_def Mat_default_def)
next
  case False
  obtain m where m: "BuildMask hsv cfg = Inr m" "length (data m) = length (data hsv)"
      "\<forall>i < length (data hsv). foreground (data m ! i) \<longleftrightarrow> spec_foreground cfg (data hsv ! i)"
    using BuildMask_nonempty [OF False assms(2)] by blast
  have "list_all (\<lambda>b. \<not> foreground b) (data m)" if "hues cfg = []"
    using BuildMask_no_hues [of hsv cfg] assms(2) that m(1) by auto
  with m show ?thesis by blast
qed

theorem BuildMask_foreground_witness:
  "Mat_wf ex_wrap_hsv \<and> mtype ex_wrap_hsv = CV_8UC3 \<and>
   (\<exists>m. BuildMask ex_wrap_hsv ex_wrap_color = Inr m \<and>
        map foreground (data m) = [True, False, False, True])"
proof -
  have wf: "Mat_wf ex_wrap_hsv" by (simp add: Mat_wf_def ex_wrap_hsv_def)
  have ty: "mtype ex_wrap_hsv = CV_8UC3" by (simp add: ex_wrap_hsv_def)
  obtain m where m: "BuildMask ex_wrap_hsv ex_wrap_color = Inr m"
      "length (data m) = length (data ex_wrap_hsv)"
      "\<forall>i < length (data ex_wrap_hsv).
         foreground (data m ! i) \<longleftrightarrow> spec_foreground ex_wrap_color (data ex_wrap_hsv ! i)"
    using BuildMask_foreground [OF wf ty, of ex_wrap_color] by blast
  have "map foreground (data m) = map (spec_foreground ex_wrap_color) (data ex_wrap_hsv)"
    using m(2,3) by (simp add: list_eq_iff_nth_eq)
  also have "\<dots> = [True, False, False, True]"
    by (simp add: ex_wrap_hsv_def ex_wrap_color_def spec_foreground_def hue_in_union_def
          hue_in_range_def in_channel_range_def effective_range_def HueRangeSet_of_def Add_def
          ClampHue_def)
  finally have "BuildMask ex_wrap_hsv ex_wrap_color = Inr m \<and>
      map foreground (data m) = [True, False, False, True]"
    using m(1) by simp
  then have "\<exists>m. BuildMask ex_wrap_hsv ex_wrap_color = Inr m \<and>
      map foreground (data m) = [True, False, False, True]" ..
  with wf ty show ?thesis by simp
qed

section \<open>Rounding and comparing\<close>

lemma ilog2_int_nat_bounds:
  "1 \<le> n \<Longrightarrow> 0 \<le> ilog2_int n \<and> 2 ^ nat (ilog2_int n) \<le> n \<and> n < 2 * 2 ^ nat (ilog2_int n)"
proof (induction n rule: ilog2_int.induct)
  case (1 n)
  show ?case
  proof (cases "n \<le> 1")
    case True
    with "1.prems" have "n = 1" by simp
    then show ?thesis by (simp add: ilog2_int.simps)
  next
    case False
    then have h: "1 \<le> n div 2" by simp
    have eq: "ilog2_int n = 1 + ilog2_int (n div 2)"
      using False by (subst ilog2_int.simps) simp
    define k where "k = nat (ilog2_int (n div 2))"
    have IH: "0 \<le> ilog2_int (n div 2)" "2 ^ k \<le> n div 2" "n div 2 < 2 * 2 ^ k"
      using "1.IH" [OF False h] by (simp_all add: k_def)
    have k': "nat (ilog2_int n) = Suc k"
      using IH(1) eq by (simp add: k_def nat_add_distrib)
    have lo: "2 * 2 ^ k \<le> n" using IH(2) by linarith
    have hi: "n < 2 * (2 * 2 ^ k)" using IH(3) by linarith
    have nn: "0 \<le> ilog2_int n" using IH(1) eq by simp
    show ?thesis using nn lo hi unfolding k' by simp
  qed
qed

lemma ilog2_int_bounds:
  assumes "1 \<le> n"
  shows "power_int 2 (ilog2_int n) \<le> (of_int n :: rat)"
    and "(of_int n :: rat) < power_int 2 (ilog2_int n + 1)"
proof -
  define k where "k = nat (ilog2_int n)"
  have b: "0 \<le> ilog2_int n" "2 ^ k \<le> n" "n < 2 * 2 ^ k"
    using ilog2_int_nat_bounds [OF assms] by (simp_all add: k_def)
  have e: "ilog2_int n = int k" using b(1) by (simp add: k_def)
  have "(of_int (2 ^ k) :: rat) \<le> of_int n" using b(2) by (simp only: of_int_le_iff)
  then show "power_int 2 (ilog2_int n) \<le> (of_int n :: rat)" by (simp add: e)
  have "(of_int n :: rat) < of_int (2 * 2 ^ k)" using b(3) by (simp only: of_int_less_iff)
  moreover have "ilog2_int n + 1 = int (Suc k)" using e by simp
  ultimately show "(of_int n :: rat) < power_int 2 (ilog2_int n + 1)"
    by (simp only: power_int_of_nat) simp
qed

lemma ilog2_bounds:
  assumes "0 < a"
  shows "power_int 2 (ilog2 a) \<le> a" and "a < power_int 2 (ilog2 a + 1)"
proof -
  obtain p q where pq: "quotient_of a = (p, q)" by (cases "quotient_of a")
  have q: "0 < q" using pq by (rule quotient_of_denom_pos)
  have a: "a = of_int p / of_int q" using pq by (rule quotient_of_div)
  have p: "0 < p" using assms q by (simp add: a zero_less_divide_iff)
  define d where "d = ilog2_int p - ilog2_int q"
  have P: "power_int 2 (ilog2_int p) \<le> (of_int p :: rat)" "(of_int p :: rat) < power_int 2 (ilog2_int p + 1)"
    using ilog2_int_bounds [of p] p by simp_all
  have Q: "power_int 2 (ilog2_int q) \<le> (of_int q :: rat)" "(of_int q :: rat) < power_int 2 (ilog2_int q + 1)"
    using ilog2_int_bounds [of q] q by simp_all
  have qpos: "(0::rat) < of_int q" using q by simp
  have up: "a < power_int 2 (d + 1)"
  proof -
    have "of_int p < power_int 2 (ilog2_int p + 1) * ((of_int q :: rat) / power_int 2 (ilog2_int q))"
    proof -
      have "1 \<le> (of_int q :: rat) / power_int 2 (ilog2_int q)"
        using Q(1) by (simp add: le_divide_eq)
      then have "power_int 2 (ilog2_int p + 1) * 1 \<le> power_int 2 (ilog2_int p + 1) * ((of_int q :: rat) / power_int 2 (ilog2_int q))"
        by (intro mult_left_mono) simp_all
      with P(2) show ?thesis by simp
    qed
    then have "of_int p / of_int q < power_int 2 (ilog2_int p + 1) / (power_int 2 (ilog2_int q) :: rat)"
      using qpos by (simp add: divide_less_eq field_simps)
    also have "\<dots> = power_int 2 (d + 1)"
      by (simp add: d_def power_int_diff [symmetric] algebra_simps)
    finally show ?thesis by (simp add: a)
  qed
  have lo: "power_int 2 (d - 1) < a"
  proof -
    have "power_int 2 (ilog2_int p) * (of_int q :: rat) < of_int p * power_int 2 (ilog2_int q + 1)"
    proof -
      have "power_int 2 (ilog2_int p) * (of_int q :: rat) < power_int 2 (ilog2_int p) * power_int 2 (ilog2_int q + 1)"
        using Q(2) by (intro mult_strict_left_mono) simp_all
      also have "\<dots> \<le> of_int p * power_int 2 (ilog2_int q + 1)"
        using P(1) by (intro mult_right_mono) simp_all
      finally show ?thesis .
    qed
    then have "power_int 2 (ilog2_int p) / (power_int 2 (ilog2_int q + 1) :: rat) < of_int p / of_int q"
      using qpos by (simp add: divide_less_eq less_divide_eq field_simps)
    moreover have "power_int 2 (ilog2_int p) / (power_int 2 (ilog2_int q + 1) :: rat) = power_int 2 (d - 1)"
      by (simp add: d_def power_int_diff [symmetric] algebra_simps)
    ultimately show ?thesis by (simp add: a)
  qed
  have r: "ilog2 a = (if power_int 2 d \<le> a then d else d - 1)"
    by (simp add: ilog2_def pq d_def Let_def)
  show "power_int 2 (ilog2 a) \<le> a"
    using lo by (simp add: r)
  show "a < power_int 2 (ilog2 a + 1)"
    using up by (simp add: r not_le)
qed

lemma round_half_even_ge: "of_int L \<le> q \<Longrightarrow> L \<le> round_half_even q"
proof -
  assume "of_int L \<le> q"
  then have "L \<le> \<lfloor>q\<rfloor>" by (simp add: le_floor_iff)
  then show ?thesis by (simp add: round_half_even_def Let_def)
qed

lemma round_half_even_le: "q \<le> of_int U \<Longrightarrow> round_half_even q \<le> U"
proof -
  assume h: "q \<le> of_int U"
  then have f: "\<lfloor>q\<rfloor> \<le> U" by (simp add: floor_le_iff)
  have "\<lfloor>q\<rfloor> + 1 \<le> U" if "q \<noteq> of_int \<lfloor>q\<rfloor>"
  proof -
    have "of_int \<lfloor>q\<rfloor> < q" using that of_int_floor_le [of q] by linarith
    then have "(of_int \<lfloor>q\<rfloor> :: rat) < of_int U" using h by linarith
    then have "\<lfloor>q\<rfloor> < U" by (simp only: of_int_less_iff)
    then show ?thesis by simp
  qed
  then show ?thesis using f
    by (auto simp add: round_half_even_def Let_def)
qed


lemma fp_round_not_nan: "fp_round p emin emax x \<noteq> NaN"
  by (simp add: fp_round_def Let_def)

lemma fp_round_unfold:
  assumes "0 < x"
  shows "fp_round p emin emax x =
    (if (power_int 2 (emax + 1) :: rat)
          \<le> of_int (round_half_even (x / power_int 2 (max emin (ilog2 x) - int p + 1)))
              * (power_int 2 (max emin (ilog2 x) - int p + 1) :: rat)
     then Infty False
     else Fin (of_int (round_half_even (x / power_int 2 (max emin (ilog2 x) - int p + 1)))
              * (power_int 2 (max emin (ilog2 x) - int p + 1) :: rat)))"
  using assms by (simp add: fp_round_def Let_def)

lemma scaled_round_ge:
  assumes "power_int 2 k \<le> x" and "j \<le> k"
  shows "power_int 2 k \<le> of_int (round_half_even (x / power_int 2 j)) * (power_int 2 j :: rat)"
proof -
  have pos: "(0::rat) < power_int 2 j" by simp
  have int: "(power_int 2 (k - j) :: rat) = of_int (2 ^ nat (k - j))"
    using assms(2) by (simp add: power_int_def)
  have "power_int 2 k / power_int 2 j \<le> x / (power_int 2 j :: rat)"
    using assms(1) pos by (intro divide_right_mono) simp_all
  then have "power_int 2 (k - j) \<le> x / (power_int 2 j :: rat)"
    by (simp add: power_int_diff)
  then have "2 ^ nat (k - j) \<le> round_half_even (x / power_int 2 j)"
    unfolding int by (rule round_half_even_ge)
  then have "(of_int (2 ^ nat (k - j)) :: rat) \<le> of_int (round_half_even (x / power_int 2 j))"
    by (simp only: of_int_le_iff)
  then have "power_int 2 (k - j) * power_int 2 j
      \<le> of_int (round_half_even (x / power_int 2 j)) * (power_int 2 j :: rat)"
    unfolding int [symmetric] using pos by (intro mult_right_mono) simp_all
  moreover have "power_int 2 (k - j) * power_int 2 j = (power_int 2 k :: rat)"
    by (simp add: power_int_add [symmetric])
  ultimately show ?thesis by simp
qed

lemma scaled_round_le:
  assumes "x \<le> power_int 2 n" and "j \<le> n"
  shows "of_int (round_half_even (x / power_int 2 j)) * (power_int 2 j :: rat) \<le> power_int 2 n"
proof -
  have pos: "(0::rat) < power_int 2 j" by simp
  have int: "(power_int 2 (n - j) :: rat) = of_int (2 ^ nat (n - j))"
    using assms(2) by (simp add: power_int_def)
  have "x / (power_int 2 j :: rat) \<le> power_int 2 n / power_int 2 j"
    using assms(1) pos by (intro divide_right_mono) simp_all
  then have "x / (power_int 2 j :: rat) \<le> power_int 2 (n - j)"
    by (simp add: power_int_diff)
  then have "round_half_even (x / power_int 2 j) \<le> 2 ^ nat (n - j)"
    unfolding int by (rule round_half_even_le)
  then have "(of_int (round_half_even (x / power_int 2 j)) :: rat) \<le> of_int (2 ^ nat (n - j))"
    by (simp only: of_int_le_iff)
  then have "of_int (round_half_even (x / power_int 2 j)) * (power_int 2 j :: rat)
      \<le> power_int 2 (n - j) * power_int 2 j"
    unfolding int [symmetric] using pos by (intro mult_right_mono) simp_all
  moreover have "power_int 2 (n - j) * power_int 2 j = (power_int 2 n :: rat)"
    by (simp add: power_int_add [symmetric])
  ultimately show ?thesis by simp
qed

lemma ilog2_ge: "power_int 2 k \<le> x \<Longrightarrow> k \<le> ilog2 x"
proof -
  assume h: "power_int 2 k \<le> x"
  have "(0::rat) < power_int 2 k" by simp
  with h have x: "0 < x" by linarith
  have "power_int 2 k < (power_int 2 (ilog2 x + 1) :: rat)"
    using h ilog2_bounds(2) [OF x] by linarith
  then have "k < ilog2 x + 1"
    by (metis linorder_not_less one_le_numeral power_int_increasing)
  then show ?thesis by simp
qed

lemma ilog2_le: "0 < x \<Longrightarrow> x \<le> power_int 2 n \<Longrightarrow> ilog2 x \<le> n"
proof -
  assume x: "0 < x" and h: "x \<le> power_int 2 n"
  have "power_int 2 (ilog2 x) \<le> (power_int 2 n :: rat)"
    using h ilog2_bounds(1) [OF x] by linarith
  then show ?thesis
    by (metis linorder_not_less one_less_numeral_iff power_int_strict_increasing semiring_norm(76))
qed

lemma fp_round_lower:
  assumes "power_int 2 k \<le> x" and "emin \<le> k" and "1 \<le> p"
  shows "fle (Fin (power_int 2 k)) (fp_round p emin emax x)"
proof -
  have "(0::rat) < power_int 2 k" by simp
  with assms(1) have x: "0 < x" by linarith
  define e where "e = max emin (ilog2 x)"
  have e: "e = ilog2 x" using ilog2_ge [OF assms(1)] assms(2) by (simp add: e_def)
  have "power_int 2 e \<le> x" using ilog2_bounds(1) [OF x] by (simp add: e)
  moreover have "e - int p + 1 \<le> e" using assms(3) by simp
  ultimately have "power_int 2 e
      \<le> of_int (round_half_even (x / power_int 2 (e - int p + 1))) * (power_int 2 (e - int p + 1) :: rat)"
    by (rule scaled_round_ge)
  moreover have "power_int 2 k \<le> (power_int 2 e :: rat)"
    using ilog2_ge [OF assms(1)] by (simp add: e power_int_increasing)
  ultimately show ?thesis
    by (simp add: fp_round_unfold [OF x] e_def [symmetric])
qed

lemma fp_round_upper:
  assumes "0 < x" and "x \<le> power_int 2 n" and "emin \<le> n" and "n \<le> emax" and "1 \<le> p"
  shows "\<exists>r. fp_round p emin emax x = Fin r \<and> 0 \<le> r \<and> r \<le> power_int 2 n"
proof -
  define e where "e = max emin (ilog2 x)"
  define r where "r = of_int (round_half_even (x / power_int 2 (e - int p + 1)))
                      * (power_int 2 (e - int p + 1) :: rat)"
  have "e \<le> n" using ilog2_le [OF assms(1,2)] assms(3) by (simp add: e_def)
  then have "e - int p + 1 \<le> n" using assms(5) by simp
  with assms(2) have le: "r \<le> power_int 2 n" unfolding r_def by (rule scaled_round_le)
  have "(power_int 2 n :: rat) < power_int 2 (emax + 1)"
    using assms(4) by (intro power_int_strict_increasing) simp_all
  with le have fin: "\<not> power_int 2 (emax + 1) \<le> r" by linarith
  have "0 \<le> round_half_even (x / power_int 2 (e - int p + 1))"
    using assms(1) by (intro round_half_even_ge) simp
  then have nn: "0 \<le> r" by (simp add: r_def)
  have "fp_round p emin emax x = Fin r"
    using fin by (simp add: fp_round_unfold [OF assms(1)] e_def [symmetric] r_def [symmetric])
  with le nn show ?thesis by blast
qed

lemma fp_round_nonneg:
  assumes "0 \<le> x"
  shows "fp_round p emin emax x = Infty False \<or> (\<exists>r\<ge>0. fp_round p emin emax x = Fin r)"
proof (cases "x = 0")
  case True
  then show ?thesis by (simp add: fp_round_def)
next
  case False
  with assms have x: "0 < x" by simp
  have "0 \<le> round_half_even (x / power_int 2 (max emin (ilog2 x) - int p + 1))"
    using x by (intro round_half_even_ge) simp
  then show ?thesis
    by (simp add: fp_round_unfold [OF x])
qed

lemma fp_round_min_pos:
  assumes "fp_round p emin emax x = Fin r" and "0 < r"
  shows "power_int 2 (emin - int p + 1) \<le> r"
proof -
  have x: "0 < x"
  proof (rule ccontr)
    assume "\<not> 0 < x"
    then consider "x = 0" | "x < 0" by linarith
    then show False
    proof cases
      case 1
      with assms show False by (simp add: fp_round_def)
    next
      case 2
      have "0 \<le> round_half_even (- x / power_int 2 (max emin (ilog2 (- x)) - int p + 1))"
        using 2 by (intro round_half_even_ge) (simp add: divide_le_0_iff)
      then have "0 \<le> of_int (round_half_even (- x / power_int 2 (max emin (ilog2 (- x)) - int p + 1)))
                   * (power_int 2 (max emin (ilog2 (- x)) - int p + 1) :: rat)" by simp
      with assms 2 show False
        by (simp add: fp_round_def Let_def split: if_splits)
    qed
  qed
  define e where "e = max emin (ilog2 x)"
  define m where "m = round_half_even (x / power_int 2 (e - int p + 1))"
  have r: "r = of_int m * power_int 2 (e - int p + 1)"
    using assms(1) by (simp add: fp_round_unfold [OF x] e_def [symmetric] m_def [symmetric] split: if_splits)
  have "(0::rat) < power_int 2 (e - int p + 1)" by simp
  then have "\<not> (power_int 2 (e - int p + 1) :: rat) < 0" by linarith
  then have "0 < m" using assms(2) by (simp add: r zero_less_mult_iff)
  then have "(1::rat) \<le> of_int m" by (simp add: int_one_le_iff_zero_less)
  then have A: "power_int 2 (e - int p + 1) \<le> of_int m * (power_int 2 (e - int p + 1) :: rat)"
    using mult_right_mono [of 1 "of_int m :: rat" "power_int 2 (e - int p + 1)"] by simp
  have B: "power_int 2 (emin - int p + 1) \<le> (power_int 2 (e - int p + 1) :: rat)"
    by (intro power_int_increasing) (simp_all add: e_def)
  show ?thesis unfolding r by (rule order_trans [OF B A])
qed

subsection \<open>Comparisons\<close>

lemma in_unit_interval_iff: "in_unit_interval a \<longleftrightarrow> (\<exists>r. a = Fin r \<and> 0 \<le> r \<and> r \<le> 1)"
  by (cases a) (auto simp add: in_unit_interval_def)

lemma Clamp01_unit: "v \<noteq> NaN \<Longrightarrow> in_unit_interval (Clamp01 v)"
  by (cases v) (auto simp add: Clamp01_def fgt_def in_unit_interval_def)


lemma flt_asym: "flt a b \<Longrightarrow> \<not> flt b a"
  by (cases a; cases b) auto

lemma fle_total: "a \<noteq> NaN \<Longrightarrow> b \<noteq> NaN \<Longrightarrow> fle a b \<or> fle b a"
  by (cases a; cases b) auto

lemma not_flt_iff: "a \<noteq> NaN \<Longrightarrow> b \<noteq> NaN \<Longrightarrow> \<not> flt a b \<longleftrightarrow> fle b a"
  by (cases a; cases b) auto

lemma not_fle_iff: "a \<noteq> NaN \<Longrightarrow> b \<noteq> NaN \<Longrightarrow> \<not> fle a b \<longleftrightarrow> flt b a"
  by (cases a; cases b) auto

lemma fle_trans: "fle a b \<Longrightarrow> fle b c \<Longrightarrow> fle a c"
  by (cases a; cases b; cases c) auto

lemma fle_antisym: "fle a b \<Longrightarrow> fle b a \<Longrightarrow> a = b"
  by (cases a; cases b) auto

lemma fle_refl: "a \<noteq> NaN \<Longrightarrow> fle a a"
  by (cases a) auto

subsection \<open>Rounded results\<close>

lemma f32_bounded:
  assumes "0 \<le> x" and "x \<le> 2 ^ n" and "n \<le> 127"
  shows "\<exists>r. f32 x = Fin r \<and> 0 \<le> r \<and> r \<le> 2 ^ n"
proof (cases "x = 0")
  case True
  then show ?thesis by (simp add: f32_def fp_round_def)
next
  case False
  with assms(1) have x: "0 < x" by simp
  have "x \<le> power_int 2 (int n)" using assms(2) by simp
  then have "\<exists>r. fp_round 24 (- 126) 127 x = Fin r \<and> 0 \<le> r \<and> r \<le> power_int 2 (int n)"
    using x assms(3) by (intro fp_round_upper) simp_all
  then show ?thesis by (simp add: f32_def)
qed

lemma f64_bounded:
  assumes "0 \<le> x" and "x \<le> 2 ^ n" and "n \<le> 1023"
  shows "\<exists>r. f64 x = Fin r \<and> 0 \<le> r \<and> r \<le> 2 ^ n"
proof (cases "x = 0")
  case True
  then show ?thesis by (simp add: f64_def fp_round_def)
next
  case False
  with assms(1) have x: "0 < x" by simp
  have "x \<le> power_int 2 (int n)" using assms(2) by simp
  then have "\<exists>r. fp_round 53 (- 1022) 1023 x = Fin r \<and> 0 \<le> r \<and> r \<le> power_int 2 (int n)"
    using x assms(3) by (intro fp_round_upper) simp_all
  then show ?thesis by (simp add: f64_def)
qed

lemma f32_not_nan: "f32 x \<noteq> NaN"
  by (simp add: f32_def fp_round_not_nan)

lemma f64_not_nan: "f64 x \<noteq> NaN"
  by (simp add: f64_def fp_round_not_nan)

lemma f32_ge_one: "1 \<le> x \<Longrightarrow> fle (Fin 1) (f32 x)"
  using fp_round_lower [of 0 x "- 126" 24 127] by (simp add: f32_def)

lemma float_of_int_pos: "1 \<le> n \<Longrightarrow> flt (Fin 0) (float_of_int n)"
proof -
  assume "1 \<le> n"
  then have "(1::rat) \<le> of_int n" by simp
  then have "fle (Fin 1) (f32 (of_int n))" by (rule f32_ge_one)
  then show ?thesis by (cases "f32 (of_int n)") (auto simp add: float_of_int_def)
qed

lemma float_of_int_0: "float_of_int 0 = Fin 0"
  by (simp add: float_of_int_def f32_def fp_round_def)

lemma float_of_int_finite:
  assumes "0 \<le> n" and "n \<le> 2 ^ 31"
  shows "\<exists>r. float_of_int n = Fin r \<and> 0 \<le> r"
proof -
  have "(of_int n :: rat) \<le> of_int (2 ^ 31)" using assms(2) by (simp only: of_int_le_iff)
  then have "(of_int n :: rat) \<le> 2 ^ 31" by simp
  moreover have "(0::rat) \<le> of_int n" using assms(1) by simp
  ultimately have "\<exists>r. f32 (of_int n) = Fin r \<and> 0 \<le> r \<and> r \<le> 2 ^ 31"
    by (intro f32_bounded) simp_all
  then show ?thesis by (auto simp add: float_of_int_def)
qed

lemma fmul32_commute: "fmul32 a b = fmul32 b a"
  by (cases a; cases b) (auto simp add: fmul32_def mult.commute)

lemma fmul32_unit:
  assumes "in_unit_interval a" and "in_unit_interval b"
  shows "in_unit_interval (fmul32 a b)"
proof -
  obtain x y where a: "a = Fin x" "0 \<le> x" "x \<le> 1" and b: "b = Fin y" "0 \<le> y" "y \<le> 1"
    using assms by (auto simp add: in_unit_interval_iff)
  have "x * y \<le> 1 * 1" using a b by (intro mult_mono) simp_all
  then have "\<exists>r. f32 (x * y) = Fin r \<and> 0 \<le> r \<and> r \<le> 2 ^ 0"
    using a b by (intro f32_bounded) simp_all
  then show ?thesis by (auto simp add: a b fmul32_def in_unit_interval_iff)
qed

lemma f32_unit: "0 \<le> x \<Longrightarrow> x \<le> 1 \<Longrightarrow> in_unit_interval (f32 x)"
  using f32_bounded [of x 0] by (auto simp add: in_unit_interval_iff)

lemma fadd32_bounded:
  assumes "a = Fin x" "0 \<le> x" "x \<le> 2 ^ n" and "b = Fin y" "0 \<le> y" "y \<le> 2 ^ n" and "n < 127"
  shows "\<exists>r. fadd32 a b = Fin r \<and> 0 \<le> r \<and> r \<le> 2 ^ Suc n"
proof -
  have "x + y \<le> 2 ^ Suc n" using assms by simp
  then have "\<exists>r. f32 (x + y) = Fin r \<and> 0 \<le> r \<and> r \<le> 2 ^ Suc n"
    using assms by (intro f32_bounded) simp_all
  then show ?thesis by (simp add: assms fadd32_def)
qed

lemma fmul32_bounded:
  assumes "a = Fin x" "0 \<le> x" "x \<le> 2 ^ n" and "in_unit_interval b" and "n \<le> 127"
  shows "\<exists>r. fmul32 a b = Fin r \<and> 0 \<le> r \<and> r \<le> 2 ^ n"
proof -
  obtain y where b: "b = Fin y" "0 \<le> y" "y \<le> 1"
    using assms(4) by (auto simp add: in_unit_interval_iff)
  have "x * y \<le> 2 ^ n * 1" using assms b by (intro mult_mono) simp_all
  then have "\<exists>r. f32 (x * y) = Fin r \<and> 0 \<le> r \<and> r \<le> 2 ^ n"
    using assms b by (intro f32_bounded) simp_all
  then show ?thesis by (simp add: assms b fmul32_def)
qed

text \<open>The score of two or three numbers of the unit interval is a number of it.\<close>

lemma shapeScore_bounded:
  assumes "in_unit_interval c" and "in_unit_interval f"
  shows "\<exists>r. fadd32 (fmul32 c (f32 (55 / 100))) (fmul32 f (f32 (45 / 100))) = Fin r \<and> 0 \<le> r \<and> r \<le> 2"
proof -
  have k1: "in_unit_interval (f32 (55 / 100))" by (rule f32_unit) simp_all
  have k2: "in_unit_interval (f32 (45 / 100))" by (rule f32_unit) simp_all
  obtain x where x: "fmul32 c (f32 (55 / 100)) = Fin x" "0 \<le> x" "x \<le> 1"
    using fmul32_unit [OF assms(1) k1] by (auto simp add: in_unit_interval_iff)
  obtain y where y: "fmul32 f (f32 (45 / 100)) = Fin y" "0 \<le> y" "y \<le> 1"
    using fmul32_unit [OF assms(2) k2] by (auto simp add: in_unit_interval_iff)
  show ?thesis
    using fadd32_bounded [of _ x 0 _ y] x y by simp
qed

lemma score_unit:
  assumes "in_unit_interval c" and "in_unit_interval f" and "in_unit_interval g"
  shows "in_unit_interval (Clamp01 (fadd32 (fmul32 c (f32 (55 / 100))) (fmul32 f (f32 (45 / 100)))))"
    and "in_unit_interval (Clamp01 (fadd32
           (fmul32 (fadd32 (fmul32 c (f32 (55 / 100))) (fmul32 f (f32 (45 / 100)))) (f32 (60 / 100)))
           (fmul32 g (f32 (40 / 100)))))"
proof -
  obtain s where s: "fadd32 (fmul32 c (f32 (55 / 100))) (fmul32 f (f32 (45 / 100))) = Fin s"
      "0 \<le> s" "s \<le> 2"
    using shapeScore_bounded [OF assms(1,2)] by blast
  show "in_unit_interval (Clamp01 (fadd32 (fmul32 c (f32 (55 / 100))) (fmul32 f (f32 (45 / 100)))))"
    by (rule Clamp01_unit) (use s in simp)
  have k3: "in_unit_interval (f32 (60 / 100))" by (rule f32_unit) simp_all
  have k4: "in_unit_interval (f32 (40 / 100))" by (rule f32_unit) simp_all
  obtain x where x: "fmul32 (Fin s) (f32 (60 / 100)) = Fin x" "0 \<le> x" "x \<le> 2 ^ 1"
    using fmul32_bounded [of "Fin s" s 1, OF _ _ _ k3] s by auto
  obtain y where y: "fmul32 g (f32 (40 / 100)) = Fin y" "0 \<le> y" "y \<le> 1"
    using fmul32_unit [OF assms(3) k4] by (auto simp add: in_unit_interval_iff)
  have "\<exists>r. fadd32 (Fin x) (Fin y) = Fin r \<and> 0 \<le> r \<and> r \<le> 2 ^ Suc 1"
    using x y by (intro fadd32_bounded [of _ x 1 _ y]) simp_all
  then show "in_unit_interval (Clamp01 (fadd32
           (fmul32 (fadd32 (fmul32 c (f32 (55 / 100))) (fmul32 f (f32 (45 / 100)))) (f32 (60 / 100)))
           (fmul32 g (f32 (40 / 100)))))"
    by (intro Clamp01_unit) (use s x y in auto)
qed

text \<open>The thresholds of the default configuration, \<^verbatim>\<open>0.75F\<close>, \<^verbatim>\<open>0.68F\<close>, \<^verbatim>\<open>0.42F\<close>, and
  \<^verbatim>\<open>0.60F\<close>, with their fractions in lowest terms.\<close>

lemma f32_75: "f32 (3 / 4) = Fin (3 / 4)"
  by code_simp

lemma f32_68: "f32 (17 / 25) = Fin (11408507 / 16777216)"
  by code_simp

lemma f32_42: "f32 (21 / 50) = Fin (14092861 / 33554432)"
  by code_simp

lemma f32_60: "f32 (3 / 5) = Fin (5033165 / 8388608)"
  by code_simp

lemma flt_not_fle: "flt a b \<Longrightarrow> \<not> fle b a"
  by (cases a; cases b) auto

lemma fdiv32_zero: "fle (Fin 1) b \<Longrightarrow> fdiv32 (Fin 0) b = Fin 0"
  by (cases b) (auto simp add: fdiv32_def f32_def fp_round_def)

lemma f64_ge: "power_int 2 k \<le> x \<Longrightarrow> - 1022 \<le> k \<Longrightarrow> fle (Fin (power_int 2 k)) (f64 x)"
  using fp_round_lower [of k x "- 1022" 53 1023] by (simp add: f64_def)

lemma f64_between:
  assumes "2 ^ k \<le> x" and "x \<le> 2 ^ n" and "n \<le> 1023"
  shows "\<exists>r. f64 x = Fin r \<and> 2 ^ k \<le> r \<and> r \<le> 2 ^ n"
proof -
  have "(0::rat) < 2 ^ k" by simp
  with assms(1) have "0 \<le> x" by linarith
  then obtain r where r: "f64 x = Fin r" "0 \<le> r" "r \<le> 2 ^ n"
    using f64_bounded [OF _ assms(2,3)] by blast
  have "power_int 2 (int k) \<le> x" using assms(1) by simp
  then have "fle (Fin (power_int 2 (int k))) (f64 x)" by (rule f64_ge) simp
  then have "2 ^ k \<le> r" by (simp add: r(1))
  with r show ?thesis by blast
qed

lemma CV_PI_bounds: "\<exists>q. CV_PI = Fin q \<and> 2 \<le> q \<and> q \<le> 4"
  using f64_between [of 1 "31415926535897932384626433832795 / 10 ^ 31" 2]
  by (simp add: CV_PI_def)

lemma four_pi_bounds: "\<exists>q. fmul64 (Fin 4) CV_PI = Fin q \<and> 8 \<le> q \<and> q \<le> 16"
proof -
  obtain p where p: "CV_PI = Fin p" "2 \<le> p" "p \<le> 4" using CV_PI_bounds by blast
  have "\<exists>r. f64 (4 * p) = Fin r \<and> 2 ^ 3 \<le> r \<and> r \<le> 2 ^ 4"
    using p by (intro f64_between) simp_all
  then show ?thesis by (simp add: p(1) fmul64_def)
qed

lemma f32_min_pos: "f32 x = Fin r \<Longrightarrow> 0 < r \<Longrightarrow> power_int 2 (- 149) \<le> r"
  using fp_round_min_pos [of 24 "- 126" 127 x r] by (simp add: f32_def)

lemma float_of_double_not_nan: "a \<noteq> NaN \<Longrightarrow> float_of_double a \<noteq> NaN"
  by (cases a) (simp_all add: f32_not_nan)

lemma f32_nonneg: "0 \<le> x \<Longrightarrow> f32 x = Infty False \<or> (\<exists>r\<ge>0. f32 x = Fin r)"
  unfolding f32_def by (rule fp_round_nonneg)

section \<open>\<^verbatim>\<open>ValidateConfig\<close> reports the first failing rule\<close>

lemma setError_reports:
  "take (length (rule_name r)) msg = rule_name r \<Longrightarrow> reports (setError eo msg) eo r"
  by (simp add: reports_def setError_def split: option.splits)

lemma validateRange_ok: "range_ok r \<Longrightarrow> validateRange eo r name = (True, eo)"
  by (auto simp add: validateRange_def range_ok_def)

lemma validateRange_fail:
  "\<not> range_ok r \<Longrightarrow> \<not> fst (validateRange eo r name) \<and>
     (case eo of None \<Rightarrow> snd (validateRange eo r name) = None
      | Some old \<Rightarrow> (case snd (validateRange eo r name) of None \<Rightarrow> False
           | Some msg \<Rightarrow> take (length name) msg = name))"
  by (auto simp add: validateRange_def range_ok_def setError_def split: option.splits)

lemma validateRange_reports:
  "\<not> range_ok r \<Longrightarrow> rule_name k = name \<Longrightarrow> reports (False, snd (validateRange eo r name)) eo k"
  using validateRange_fail [of r eo name]
  by (auto simp add: reports_def split: option.splits)

lemma fst_validateRange: "fst (validateRange eo r name) \<longleftrightarrow> range_ok r"
  using validateRange_fail [of r eo name] validateRange_ok [of r eo name]
  by (cases "range_ok r") auto

lemma unit_interval_code:
  "\<not> is_nan x \<Longrightarrow> (flt x (Fin 0) \<or> fgt x (Fin 1)) \<longleftrightarrow> \<not> in_unit_interval x"
  by (cases x) (auto simp add: in_unit_interval_def fgt_def is_nan_def)

text \<open>One lemma for each rule: when the rules before it hold and it fails, it is the one
  reported.\<close>

lemma ValidateConfig_CenterHues:
  assumes "thresholds_not_nan cfg"
  assumes "\<not> rule_holds cfg CenterHues"
  shows "reports (ValidateConfig cfg eo) eo CenterHues"
  using assms
  by (auto simp add: thresholds_not_nan_def ValidateConfig_def Let_def fst_validateRange
        unit_interval_code Empty_def setError_reports validateRange_reports)

lemma ValidateConfig_CenterSat:
  assumes "thresholds_not_nan cfg"
  assumes "rule_holds cfg CenterHues"
  assumes "\<not> rule_holds cfg CenterSat"
  shows "reports (ValidateConfig cfg eo) eo CenterSat"
  using assms
  by (auto simp add: thresholds_not_nan_def ValidateConfig_def Let_def fst_validateRange
        unit_interval_code Empty_def setError_reports validateRange_reports)

lemma ValidateConfig_CenterVal:
  assumes "thresholds_not_nan cfg"
  assumes "rule_holds cfg CenterHues"
  assumes "rule_holds cfg CenterSat"
  assumes "\<not> rule_holds cfg CenterVal"
  shows "reports (ValidateConfig cfg eo) eo CenterVal"
  using assms
  by (auto simp add: thresholds_not_nan_def ValidateConfig_def Let_def fst_validateRange
        unit_interval_code Empty_def setError_reports validateRange_reports)

lemma ValidateConfig_MinArea:
  assumes "thresholds_not_nan cfg"
  assumes "rule_holds cfg CenterHues"
  assumes "rule_holds cfg CenterSat"
  assumes "rule_holds cfg CenterVal"
  assumes "\<not> rule_holds cfg MinArea"
  shows "reports (ValidateConfig cfg eo) eo MinArea"
  using assms
  by (auto simp add: thresholds_not_nan_def ValidateConfig_def Let_def fst_validateRange
        unit_interval_code Empty_def setError_reports validateRange_reports)

lemma ValidateConfig_MaxArea:
  assumes "thresholds_not_nan cfg"
  assumes "rule_holds cfg CenterHues"
  assumes "rule_holds cfg CenterSat"
  assumes "rule_holds cfg CenterVal"
  assumes "rule_holds cfg MinArea"
  assumes "\<not> rule_holds cfg MaxArea"
  shows "reports (ValidateConfig cfg eo) eo MaxArea"
  using assms
  by (auto simp add: thresholds_not_nan_def ValidateConfig_def Let_def fst_validateRange
        unit_interval_code Empty_def setError_reports validateRange_reports)

lemma ValidateConfig_MinCircularity:
  assumes "thresholds_not_nan cfg"
  assumes "rule_holds cfg CenterHues"
  assumes "rule_holds cfg CenterSat"
  assumes "rule_holds cfg CenterVal"
  assumes "rule_holds cfg MinArea"
  assumes "rule_holds cfg MaxArea"
  assumes "\<not> rule_holds cfg MinCircularity"
  shows "reports (ValidateConfig cfg eo) eo MinCircularity"
  using assms
  by (auto simp add: thresholds_not_nan_def ValidateConfig_def Let_def fst_validateRange
        unit_interval_code Empty_def setError_reports validateRange_reports)

lemma ValidateConfig_MinFillRatio:
  assumes "thresholds_not_nan cfg"
  assumes "rule_holds cfg CenterHues"
  assumes "rule_holds cfg CenterSat"
  assumes "rule_holds cfg CenterVal"
  assumes "rule_holds cfg MinArea"
  assumes "rule_holds cfg MaxArea"
  assumes "rule_holds cfg MinCircularity"
  assumes "\<not> rule_holds cfg MinFillRatio"
  shows "reports (ValidateConfig cfg eo) eo MinFillRatio"
  using assms
  by (auto simp add: thresholds_not_nan_def ValidateConfig_def Let_def fst_validateRange
        unit_interval_code Empty_def setError_reports validateRange_reports)

lemma ValidateConfig_RingRadii:
  assumes "thresholds_not_nan cfg"
  assumes "rule_holds cfg CenterHues"
  assumes "rule_holds cfg CenterSat"
  assumes "rule_holds cfg CenterVal"
  assumes "rule_holds cfg MinArea"
  assumes "rule_holds cfg MaxArea"
  assumes "rule_holds cfg MinCircularity"
  assumes "rule_holds cfg MinFillRatio"
  assumes "\<not> rule_holds cfg RingRadii"
  shows "reports (ValidateConfig cfg eo) eo RingRadii"
  using assms
  by (auto simp add: thresholds_not_nan_def ValidateConfig_def Let_def fst_validateRange
        unit_interval_code Empty_def setError_reports validateRange_reports)

lemma ValidateConfig_MinSupportRatio:
  assumes "thresholds_not_nan cfg"
  assumes "rule_holds cfg CenterHues"
  assumes "rule_holds cfg CenterSat"
  assumes "rule_holds cfg CenterVal"
  assumes "rule_holds cfg MinArea"
  assumes "rule_holds cfg MaxArea"
  assumes "rule_holds cfg MinCircularity"
  assumes "rule_holds cfg MinFillRatio"
  assumes "rule_holds cfg RingRadii"
  assumes "\<not> rule_holds cfg MinSupportRatio"
  shows "reports (ValidateConfig cfg eo) eo MinSupportRatio"
  using assms
  by (auto simp add: thresholds_not_nan_def ValidateConfig_def Let_def fst_validateRange
        unit_interval_code Empty_def setError_reports validateRange_reports)

lemma ValidateConfig_SupportSat:
  assumes "thresholds_not_nan cfg"
  assumes "rule_holds cfg CenterHues"
  assumes "rule_holds cfg CenterSat"
  assumes "rule_holds cfg CenterVal"
  assumes "rule_holds cfg MinArea"
  assumes "rule_holds cfg MaxArea"
  assumes "rule_holds cfg MinCircularity"
  assumes "rule_holds cfg MinFillRatio"
  assumes "rule_holds cfg RingRadii"
  assumes "rule_holds cfg MinSupportRatio"
  assumes "\<not> rule_holds cfg SupportSat"
  shows "reports (ValidateConfig cfg eo) eo SupportSat"
  using assms
  by (auto simp add: thresholds_not_nan_def ValidateConfig_def Let_def fst_validateRange
        unit_interval_code Empty_def setError_reports validateRange_reports)

lemma ValidateConfig_SupportVal:
  assumes "thresholds_not_nan cfg"
  assumes "rule_holds cfg CenterHues"
  assumes "rule_holds cfg CenterSat"
  assumes "rule_holds cfg CenterVal"
  assumes "rule_holds cfg MinArea"
  assumes "rule_holds cfg MaxArea"
  assumes "rule_holds cfg MinCircularity"
  assumes "rule_holds cfg MinFillRatio"
  assumes "rule_holds cfg RingRadii"
  assumes "rule_holds cfg MinSupportRatio"
  assumes "rule_holds cfg SupportSat"
  assumes "\<not> rule_holds cfg SupportVal"
  shows "reports (ValidateConfig cfg eo) eo SupportVal"
  using assms
  by (auto simp add: thresholds_not_nan_def ValidateConfig_def Let_def fst_validateRange
        unit_interval_code Empty_def setError_reports validateRange_reports)

lemma ValidateConfig_ExcludeSat:
  assumes "thresholds_not_nan cfg"
  assumes "rule_holds cfg CenterHues"
  assumes "rule_holds cfg CenterSat"
  assumes "rule_holds cfg CenterVal"
  assumes "rule_holds cfg MinArea"
  assumes "rule_holds cfg MaxArea"
  assumes "rule_holds cfg MinCircularity"
  assumes "rule_holds cfg MinFillRatio"
  assumes "rule_holds cfg RingRadii"
  assumes "rule_holds cfg MinSupportRatio"
  assumes "rule_holds cfg SupportSat"
  assumes "rule_holds cfg SupportVal"
  assumes "\<not> rule_holds cfg ExcludeSat"
  shows "reports (ValidateConfig cfg eo) eo ExcludeSat"
  using assms
  by (auto simp add: thresholds_not_nan_def ValidateConfig_def Let_def fst_validateRange
        unit_interval_code Empty_def setError_reports validateRange_reports)

lemma ValidateConfig_ExcludeVal:
  assumes "thresholds_not_nan cfg"
  assumes "rule_holds cfg CenterHues"
  assumes "rule_holds cfg CenterSat"
  assumes "rule_holds cfg CenterVal"
  assumes "rule_holds cfg MinArea"
  assumes "rule_holds cfg MaxArea"
  assumes "rule_holds cfg MinCircularity"
  assumes "rule_holds cfg MinFillRatio"
  assumes "rule_holds cfg RingRadii"
  assumes "rule_holds cfg MinSupportRatio"
  assumes "rule_holds cfg SupportSat"
  assumes "rule_holds cfg SupportVal"
  assumes "rule_holds cfg ExcludeSat"
  assumes "\<not> rule_holds cfg ExcludeVal"
  shows "reports (ValidateConfig cfg eo) eo ExcludeVal"
  using assms
  by (auto simp add: thresholds_not_nan_def ValidateConfig_def Let_def fst_validateRange
        unit_interval_code Empty_def setError_reports validateRange_reports)

lemma ValidateConfig_valid:
  assumes "thresholds_not_nan cfg"
  assumes "rule_holds cfg CenterHues"
  assumes "rule_holds cfg CenterSat"
  assumes "rule_holds cfg CenterVal"
  assumes "rule_holds cfg MinArea"
  assumes "rule_holds cfg MaxArea"
  assumes "rule_holds cfg MinCircularity"
  assumes "rule_holds cfg MinFillRatio"
  assumes "rule_holds cfg RingRadii"
  assumes "rule_holds cfg MinSupportRatio"
  assumes "rule_holds cfg SupportSat"
  assumes "rule_holds cfg SupportVal"
  assumes "rule_holds cfg ExcludeSat"
  assumes "rule_holds cfg ExcludeVal"
  shows "ValidateConfig cfg eo = (True, eo)"
  using assms
  by (auto simp add: thresholds_not_nan_def ValidateConfig_def Let_def fst_validateRange
        unit_interval_code Empty_def validateRange_ok)

text \<open>The same for \<open>first_failing\<close>, and the two together, from the last rule back to
  the first.\<close>

lemma first_failing_CenterHues:
  assumes "\<not> rule_holds cfg CenterHues"
  shows "first_failing cfg = Some CenterHues"
  using assms
  by (simp only: first_failing_def rules_in_order_def find.simps simp_thms if_True if_False)

lemma first_failing_CenterSat:
  assumes "rule_holds cfg CenterHues"
  assumes "\<not> rule_holds cfg CenterSat"
  shows "first_failing cfg = Some CenterSat"
  using assms
  by (simp only: first_failing_def rules_in_order_def find.simps simp_thms if_True if_False)

lemma first_failing_CenterVal:
  assumes "rule_holds cfg CenterHues"
  assumes "rule_holds cfg CenterSat"
  assumes "\<not> rule_holds cfg CenterVal"
  shows "first_failing cfg = Some CenterVal"
  using assms
  by (simp only: first_failing_def rules_in_order_def find.simps simp_thms if_True if_False)

lemma first_failing_MinArea:
  assumes "rule_holds cfg CenterHues"
  assumes "rule_holds cfg CenterSat"
  assumes "rule_holds cfg CenterVal"
  assumes "\<not> rule_holds cfg MinArea"
  shows "first_failing cfg = Some MinArea"
  using assms
  by (simp only: first_failing_def rules_in_order_def find.simps simp_thms if_True if_False)

lemma first_failing_MaxArea:
  assumes "rule_holds cfg CenterHues"
  assumes "rule_holds cfg CenterSat"
  assumes "rule_holds cfg CenterVal"
  assumes "rule_holds cfg MinArea"
  assumes "\<not> rule_holds cfg MaxArea"
  shows "first_failing cfg = Some MaxArea"
  using assms
  by (simp only: first_failing_def rules_in_order_def find.simps simp_thms if_True if_False)

lemma first_failing_MinCircularity:
  assumes "rule_holds cfg CenterHues"
  assumes "rule_holds cfg CenterSat"
  assumes "rule_holds cfg CenterVal"
  assumes "rule_holds cfg MinArea"
  assumes "rule_holds cfg MaxArea"
  assumes "\<not> rule_holds cfg MinCircularity"
  shows "first_failing cfg = Some MinCircularity"
  using assms
  by (simp only: first_failing_def rules_in_order_def find.simps simp_thms if_True if_False)

lemma first_failing_MinFillRatio:
  assumes "rule_holds cfg CenterHues"
  assumes "rule_holds cfg CenterSat"
  assumes "rule_holds cfg CenterVal"
  assumes "rule_holds cfg MinArea"
  assumes "rule_holds cfg MaxArea"
  assumes "rule_holds cfg MinCircularity"
  assumes "\<not> rule_holds cfg MinFillRatio"
  shows "first_failing cfg = Some MinFillRatio"
  using assms
  by (simp only: first_failing_def rules_in_order_def find.simps simp_thms if_True if_False)

lemma first_failing_RingRadii:
  assumes "rule_holds cfg CenterHues"
  assumes "rule_holds cfg CenterSat"
  assumes "rule_holds cfg CenterVal"
  assumes "rule_holds cfg MinArea"
  assumes "rule_holds cfg MaxArea"
  assumes "rule_holds cfg MinCircularity"
  assumes "rule_holds cfg MinFillRatio"
  assumes "\<not> rule_holds cfg RingRadii"
  shows "first_failing cfg = Some RingRadii"
  using assms
  by (simp only: first_failing_def rules_in_order_def find.simps simp_thms if_True if_False)

lemma first_failing_MinSupportRatio:
  assumes "rule_holds cfg CenterHues"
  assumes "rule_holds cfg CenterSat"
  assumes "rule_holds cfg CenterVal"
  assumes "rule_holds cfg MinArea"
  assumes "rule_holds cfg MaxArea"
  assumes "rule_holds cfg MinCircularity"
  assumes "rule_holds cfg MinFillRatio"
  assumes "rule_holds cfg RingRadii"
  assumes "\<not> rule_holds cfg MinSupportRatio"
  shows "first_failing cfg = Some MinSupportRatio"
  using assms
  by (simp only: first_failing_def rules_in_order_def find.simps simp_thms if_True if_False)

lemma first_failing_SupportSat:
  assumes "rule_holds cfg CenterHues"
  assumes "rule_holds cfg CenterSat"
  assumes "rule_holds cfg CenterVal"
  assumes "rule_holds cfg MinArea"
  assumes "rule_holds cfg MaxArea"
  assumes "rule_holds cfg MinCircularity"
  assumes "rule_holds cfg MinFillRatio"
  assumes "rule_holds cfg RingRadii"
  assumes "rule_holds cfg MinSupportRatio"
  assumes "\<not> rule_holds cfg SupportSat"
  shows "first_failing cfg = Some SupportSat"
  using assms
  by (simp only: first_failing_def rules_in_order_def find.simps simp_thms if_True if_False)

lemma first_failing_SupportVal:
  assumes "rule_holds cfg CenterHues"
  assumes "rule_holds cfg CenterSat"
  assumes "rule_holds cfg CenterVal"
  assumes "rule_holds cfg MinArea"
  assumes "rule_holds cfg MaxArea"
  assumes "rule_holds cfg MinCircularity"
  assumes "rule_holds cfg MinFillRatio"
  assumes "rule_holds cfg RingRadii"
  assumes "rule_holds cfg MinSupportRatio"
  assumes "rule_holds cfg SupportSat"
  assumes "\<not> rule_holds cfg SupportVal"
  shows "first_failing cfg = Some SupportVal"
  using assms
  by (simp only: first_failing_def rules_in_order_def find.simps simp_thms if_True if_False)

lemma first_failing_ExcludeSat:
  assumes "rule_holds cfg CenterHues"
  assumes "rule_holds cfg CenterSat"
  assumes "rule_holds cfg CenterVal"
  assumes "rule_holds cfg MinArea"
  assumes "rule_holds cfg MaxArea"
  assumes "rule_holds cfg MinCircularity"
  assumes "rule_holds cfg MinFillRatio"
  assumes "rule_holds cfg RingRadii"
  assumes "rule_holds cfg MinSupportRatio"
  assumes "rule_holds cfg SupportSat"
  assumes "rule_holds cfg SupportVal"
  assumes "\<not> rule_holds cfg ExcludeSat"
  shows "first_failing cfg = Some ExcludeSat"
  using assms
  by (simp only: first_failing_def rules_in_order_def find.simps simp_thms if_True if_False)

lemma first_failing_ExcludeVal:
  assumes "rule_holds cfg CenterHues"
  assumes "rule_holds cfg CenterSat"
  assumes "rule_holds cfg CenterVal"
  assumes "rule_holds cfg MinArea"
  assumes "rule_holds cfg MaxArea"
  assumes "rule_holds cfg MinCircularity"
  assumes "rule_holds cfg MinFillRatio"
  assumes "rule_holds cfg RingRadii"
  assumes "rule_holds cfg MinSupportRatio"
  assumes "rule_holds cfg SupportSat"
  assumes "rule_holds cfg SupportVal"
  assumes "rule_holds cfg ExcludeSat"
  assumes "\<not> rule_holds cfg ExcludeVal"
  shows "first_failing cfg = Some ExcludeVal"
  using assms
  by (simp only: first_failing_def rules_in_order_def find.simps simp_thms if_True if_False)

lemma first_failing_None:
  assumes "rule_holds cfg CenterHues"
  assumes "rule_holds cfg CenterSat"
  assumes "rule_holds cfg CenterVal"
  assumes "rule_holds cfg MinArea"
  assumes "rule_holds cfg MaxArea"
  assumes "rule_holds cfg MinCircularity"
  assumes "rule_holds cfg MinFillRatio"
  assumes "rule_holds cfg RingRadii"
  assumes "rule_holds cfg MinSupportRatio"
  assumes "rule_holds cfg SupportSat"
  assumes "rule_holds cfg SupportVal"
  assumes "rule_holds cfg ExcludeSat"
  assumes "rule_holds cfg ExcludeVal"
  shows "first_failing cfg = None"
  using assms
  by (simp only: first_failing_def rules_in_order_def find.simps simp_thms if_True if_False)

lemma reported_from_13:
  assumes nan: "thresholds_not_nan cfg"
  assumes h1: "rule_holds cfg CenterHues"
  assumes h2: "rule_holds cfg CenterSat"
  assumes h3: "rule_holds cfg CenterVal"
  assumes h4: "rule_holds cfg MinArea"
  assumes h5: "rule_holds cfg MaxArea"
  assumes h6: "rule_holds cfg MinCircularity"
  assumes h7: "rule_holds cfg MinFillRatio"
  assumes h8: "rule_holds cfg RingRadii"
  assumes h9: "rule_holds cfg MinSupportRatio"
  assumes h10: "rule_holds cfg SupportSat"
  assumes h11: "rule_holds cfg SupportVal"
  assumes h12: "rule_holds cfg ExcludeSat"
  assumes h13: "rule_holds cfg ExcludeVal"
  shows "first_failing_reported cfg eo"
  unfolding first_failing_reported_def
  using first_failing_None [OF h1 h2 h3 h4 h5 h6 h7 h8 h9 h10 h11 h12 h13] ValidateConfig_valid [OF nan h1 h2 h3 h4 h5 h6 h7 h8 h9 h10 h11 h12 h13, of eo]
  by simp

lemma reported_from_12:
  assumes nan: "thresholds_not_nan cfg"
  assumes h1: "rule_holds cfg CenterHues"
  assumes h2: "rule_holds cfg CenterSat"
  assumes h3: "rule_holds cfg CenterVal"
  assumes h4: "rule_holds cfg MinArea"
  assumes h5: "rule_holds cfg MaxArea"
  assumes h6: "rule_holds cfg MinCircularity"
  assumes h7: "rule_holds cfg MinFillRatio"
  assumes h8: "rule_holds cfg RingRadii"
  assumes h9: "rule_holds cfg MinSupportRatio"
  assumes h10: "rule_holds cfg SupportSat"
  assumes h11: "rule_holds cfg SupportVal"
  assumes h12: "rule_holds cfg ExcludeSat"
  shows "first_failing_reported cfg eo"
proof (cases "rule_holds cfg ExcludeVal")
  case True
  then show ?thesis by (rule reported_from_13 [OF nan h1 h2 h3 h4 h5 h6 h7 h8 h9 h10 h11 h12])
next
  case False
  show ?thesis
    unfolding first_failing_reported_def
    using first_failing_ExcludeVal [OF h1 h2 h3 h4 h5 h6 h7 h8 h9 h10 h11 h12 False]
      ValidateConfig_ExcludeVal [OF nan h1 h2 h3 h4 h5 h6 h7 h8 h9 h10 h11 h12 False, of eo]
    by simp
qed

lemma reported_from_11:
  assumes nan: "thresholds_not_nan cfg"
  assumes h1: "rule_holds cfg CenterHues"
  assumes h2: "rule_holds cfg CenterSat"
  assumes h3: "rule_holds cfg CenterVal"
  assumes h4: "rule_holds cfg MinArea"
  assumes h5: "rule_holds cfg MaxArea"
  assumes h6: "rule_holds cfg MinCircularity"
  assumes h7: "rule_holds cfg MinFillRatio"
  assumes h8: "rule_holds cfg RingRadii"
  assumes h9: "rule_holds cfg MinSupportRatio"
  assumes h10: "rule_holds cfg SupportSat"
  assumes h11: "rule_holds cfg SupportVal"
  shows "first_failing_reported cfg eo"
proof (cases "rule_holds cfg ExcludeSat")
  case True
  then show ?thesis by (rule reported_from_12 [OF nan h1 h2 h3 h4 h5 h6 h7 h8 h9 h10 h11])
next
  case False
  show ?thesis
    unfolding first_failing_reported_def
    using first_failing_ExcludeSat [OF h1 h2 h3 h4 h5 h6 h7 h8 h9 h10 h11 False]
      ValidateConfig_ExcludeSat [OF nan h1 h2 h3 h4 h5 h6 h7 h8 h9 h10 h11 False, of eo]
    by simp
qed

lemma reported_from_10:
  assumes nan: "thresholds_not_nan cfg"
  assumes h1: "rule_holds cfg CenterHues"
  assumes h2: "rule_holds cfg CenterSat"
  assumes h3: "rule_holds cfg CenterVal"
  assumes h4: "rule_holds cfg MinArea"
  assumes h5: "rule_holds cfg MaxArea"
  assumes h6: "rule_holds cfg MinCircularity"
  assumes h7: "rule_holds cfg MinFillRatio"
  assumes h8: "rule_holds cfg RingRadii"
  assumes h9: "rule_holds cfg MinSupportRatio"
  assumes h10: "rule_holds cfg SupportSat"
  shows "first_failing_reported cfg eo"
proof (cases "rule_holds cfg SupportVal")
  case True
  then show ?thesis by (rule reported_from_11 [OF nan h1 h2 h3 h4 h5 h6 h7 h8 h9 h10])
next
  case False
  show ?thesis
    unfolding first_failing_reported_def
    using first_failing_SupportVal [OF h1 h2 h3 h4 h5 h6 h7 h8 h9 h10 False]
      ValidateConfig_SupportVal [OF nan h1 h2 h3 h4 h5 h6 h7 h8 h9 h10 False, of eo]
    by simp
qed

lemma reported_from_9:
  assumes nan: "thresholds_not_nan cfg"
  assumes h1: "rule_holds cfg CenterHues"
  assumes h2: "rule_holds cfg CenterSat"
  assumes h3: "rule_holds cfg CenterVal"
  assumes h4: "rule_holds cfg MinArea"
  assumes h5: "rule_holds cfg MaxArea"
  assumes h6: "rule_holds cfg MinCircularity"
  assumes h7: "rule_holds cfg MinFillRatio"
  assumes h8: "rule_holds cfg RingRadii"
  assumes h9: "rule_holds cfg MinSupportRatio"
  shows "first_failing_reported cfg eo"
proof (cases "rule_holds cfg SupportSat")
  case True
  then show ?thesis by (rule reported_from_10 [OF nan h1 h2 h3 h4 h5 h6 h7 h8 h9])
next
  case False
  show ?thesis
    unfolding first_failing_reported_def
    using first_failing_SupportSat [OF h1 h2 h3 h4 h5 h6 h7 h8 h9 False]
      ValidateConfig_SupportSat [OF nan h1 h2 h3 h4 h5 h6 h7 h8 h9 False, of eo]
    by simp
qed

lemma reported_from_8:
  assumes nan: "thresholds_not_nan cfg"
  assumes h1: "rule_holds cfg CenterHues"
  assumes h2: "rule_holds cfg CenterSat"
  assumes h3: "rule_holds cfg CenterVal"
  assumes h4: "rule_holds cfg MinArea"
  assumes h5: "rule_holds cfg MaxArea"
  assumes h6: "rule_holds cfg MinCircularity"
  assumes h7: "rule_holds cfg MinFillRatio"
  assumes h8: "rule_holds cfg RingRadii"
  shows "first_failing_reported cfg eo"
proof (cases "rule_holds cfg MinSupportRatio")
  case True
  then show ?thesis by (rule reported_from_9 [OF nan h1 h2 h3 h4 h5 h6 h7 h8])
next
  case False
  show ?thesis
    unfolding first_failing_reported_def
    using first_failing_MinSupportRatio [OF h1 h2 h3 h4 h5 h6 h7 h8 False]
      ValidateConfig_MinSupportRatio [OF nan h1 h2 h3 h4 h5 h6 h7 h8 False, of eo]
    by simp
qed

lemma reported_from_7:
  assumes nan: "thresholds_not_nan cfg"
  assumes h1: "rule_holds cfg CenterHues"
  assumes h2: "rule_holds cfg CenterSat"
  assumes h3: "rule_holds cfg CenterVal"
  assumes h4: "rule_holds cfg MinArea"
  assumes h5: "rule_holds cfg MaxArea"
  assumes h6: "rule_holds cfg MinCircularity"
  assumes h7: "rule_holds cfg MinFillRatio"
  shows "first_failing_reported cfg eo"
proof (cases "rule_holds cfg RingRadii")
  case True
  then show ?thesis by (rule reported_from_8 [OF nan h1 h2 h3 h4 h5 h6 h7])
next
  case False
  show ?thesis
    unfolding first_failing_reported_def
    using first_failing_RingRadii [OF h1 h2 h3 h4 h5 h6 h7 False]
      ValidateConfig_RingRadii [OF nan h1 h2 h3 h4 h5 h6 h7 False, of eo]
    by simp
qed

lemma reported_from_6:
  assumes nan: "thresholds_not_nan cfg"
  assumes h1: "rule_holds cfg CenterHues"
  assumes h2: "rule_holds cfg CenterSat"
  assumes h3: "rule_holds cfg CenterVal"
  assumes h4: "rule_holds cfg MinArea"
  assumes h5: "rule_holds cfg MaxArea"
  assumes h6: "rule_holds cfg MinCircularity"
  shows "first_failing_reported cfg eo"
proof (cases "rule_holds cfg MinFillRatio")
  case True
  then show ?thesis by (rule reported_from_7 [OF nan h1 h2 h3 h4 h5 h6])
next
  case False
  show ?thesis
    unfolding first_failing_reported_def
    using first_failing_MinFillRatio [OF h1 h2 h3 h4 h5 h6 False]
      ValidateConfig_MinFillRatio [OF nan h1 h2 h3 h4 h5 h6 False, of eo]
    by simp
qed

lemma reported_from_5:
  assumes nan: "thresholds_not_nan cfg"
  assumes h1: "rule_holds cfg CenterHues"
  assumes h2: "rule_holds cfg CenterSat"
  assumes h3: "rule_holds cfg CenterVal"
  assumes h4: "rule_holds cfg MinArea"
  assumes h5: "rule_holds cfg MaxArea"
  shows "first_failing_reported cfg eo"
proof (cases "rule_holds cfg MinCircularity")
  case True
  then show ?thesis by (rule reported_from_6 [OF nan h1 h2 h3 h4 h5])
next
  case False
  show ?thesis
    unfolding first_failing_reported_def
    using first_failing_MinCircularity [OF h1 h2 h3 h4 h5 False]
      ValidateConfig_MinCircularity [OF nan h1 h2 h3 h4 h5 False, of eo]
    by simp
qed

lemma reported_from_4:
  assumes nan: "thresholds_not_nan cfg"
  assumes h1: "rule_holds cfg CenterHues"
  assumes h2: "rule_holds cfg CenterSat"
  assumes h3: "rule_holds cfg CenterVal"
  assumes h4: "rule_holds cfg MinArea"
  shows "first_failing_reported cfg eo"
proof (cases "rule_holds cfg MaxArea")
  case True
  then show ?thesis by (rule reported_from_5 [OF nan h1 h2 h3 h4])
next
  case False
  show ?thesis
    unfolding first_failing_reported_def
    using first_failing_MaxArea [OF h1 h2 h3 h4 False]
      ValidateConfig_MaxArea [OF nan h1 h2 h3 h4 False, of eo]
    by simp
qed

lemma reported_from_3:
  assumes nan: "thresholds_not_nan cfg"
  assumes h1: "rule_holds cfg CenterHues"
  assumes h2: "rule_holds cfg CenterSat"
  assumes h3: "rule_holds cfg CenterVal"
  shows "first_failing_reported cfg eo"
proof (cases "rule_holds cfg MinArea")
  case True
  then show ?thesis by (rule reported_from_4 [OF nan h1 h2 h3])
next
  case False
  show ?thesis
    unfolding first_failing_reported_def
    using first_failing_MinArea [OF h1 h2 h3 False]
      ValidateConfig_MinArea [OF nan h1 h2 h3 False, of eo]
    by simp
qed

lemma reported_from_2:
  assumes nan: "thresholds_not_nan cfg"
  assumes h1: "rule_holds cfg CenterHues"
  assumes h2: "rule_holds cfg CenterSat"
  shows "first_failing_reported cfg eo"
proof (cases "rule_holds cfg CenterVal")
  case True
  then show ?thesis by (rule reported_from_3 [OF nan h1 h2])
next
  case False
  show ?thesis
    unfolding first_failing_reported_def
    using first_failing_CenterVal [OF h1 h2 False]
      ValidateConfig_CenterVal [OF nan h1 h2 False, of eo]
    by simp
qed

lemma reported_from_1:
  assumes nan: "thresholds_not_nan cfg"
  assumes h1: "rule_holds cfg CenterHues"
  shows "first_failing_reported cfg eo"
proof (cases "rule_holds cfg CenterSat")
  case True
  then show ?thesis by (rule reported_from_2 [OF nan h1])
next
  case False
  show ?thesis
    unfolding first_failing_reported_def
    using first_failing_CenterSat [OF h1 False]
      ValidateConfig_CenterSat [OF nan h1 False, of eo]
    by simp
qed

lemma reported_from_0:
  assumes nan: "thresholds_not_nan cfg"
  shows "first_failing_reported cfg eo"
proof (cases "rule_holds cfg CenterHues")
  case True
  then show ?thesis by (rule reported_from_1 [OF nan ])
next
  case False
  show ?thesis
    unfolding first_failing_reported_def
    using first_failing_CenterHues [OF False]
      ValidateConfig_CenterHues [OF nan False, of eo]
    by simp
qed

section \<open>The parts of \<^verbatim>\<open>Find\<close>\<close>

lemma candidate_Some:
  assumes "candidate cv config cm sm em c = Some d"
  shows "\<not> fle (float_of_double (cv_contourArea cv c)) (Fin 0)"
    and "contour d = c"
    and "boxPx d = cv_boundingRect cv c"
    and "radiusPx d = snd (cv_minEnclosingCircle cv c)"
    and "centerPx d = (int_of_long (lround (fst (fst (cv_minEnclosingCircle cv c)))),
                       int_of_long (lround (snd (fst (cv_minEnclosingCircle cv c)))))"
    and "areaPx (metrics d) = float_of_double (cv_contourArea cv c)"
    and "circularity (metrics d) = Clamp01 (ComputeCircularity cv c)"
    and "centerFillRatio (metrics d)
           = Clamp01 (SafeDiv (areaPx (metrics d)) (circleArea (radiusPx d)))"
    and "ringSupportRatio (metrics d)
           = (if enabled (contextRing config)
              then ring_support cv (contextRing config) cm sm em (centerPx d) (radiusPx d)
              else Fin 1)"
    and "passesArea (metrics d)
           = (fge (areaPx (metrics d)) (float_of_int (minArea (shape config)))
              \<and> fle (areaPx (metrics d)) (float_of_int (maxArea (shape config))))"
    and "passesCircularity (metrics d)
           = fge (circularity (metrics d)) (minCircularity (shape config))"
    and "passesCenterFill (metrics d)
           = fge (centerFillRatio (metrics d)) (minFillRatio (shape config))"
    and "passesContext (metrics d)
           = (if enabled (contextRing config)
              then fge (ringSupportRatio (metrics d)) (minSupportRatio (contextRing config))
              else True)"
    and "score (metrics d)
           = (if enabled (contextRing config)
              then Clamp01 (fadd32
                     (fmul32 (fadd32 (fmul32 (circularity (metrics d)) (f32 (55 / 100)))
                                     (fmul32 (centerFillRatio (metrics d)) (f32 (45 / 100))))
                             (f32 (60 / 100)))
                     (fmul32 (ringSupportRatio (metrics d)) (f32 (40 / 100))))
              else Clamp01 (fadd32 (fmul32 (circularity (metrics d)) (f32 (55 / 100)))
                                   (fmul32 (centerFillRatio (metrics d)) (f32 (45 / 100)))))"
    and "accepted (metrics d)
           = (passesArea (metrics d) \<and> passesCircularity (metrics d)
              \<and> passesCenterFill (metrics d) \<and> passesContext (metrics d))"
  using assms
  by (auto simp add: candidate_def Let_def split: if_splits prod.splits)

lemma candidate_None:
  "candidate cv config cm sm em c = None \<longleftrightarrow> fle (float_of_double (cv_contourArea cv c)) (Fin 0)"
  by (simp add: candidate_def Let_def split: prod.splits)

lemma Find_candidates_set:
  "d \<in> set (Find_candidates cv config (cm, sm, em)) \<longleftrightarrow>
   (\<exists>c \<in> set (cv_findContours cv cm). candidate cv config cm sm em c = Some d)"
  by (force simp add: Find_candidates_def map_filter_def image_iff)

lemma Find_candidates_length:
  "length (Find_candidates cv config (cm, sm, em))
   = length (filter (\<lambda>c. \<not> fle (float_of_double (cv_contourArea cv c)) (Fin 0))
       (cv_findContours cv cm))"
proof -
  have "(\<lambda>c. candidate cv config cm sm em c \<noteq> None)
      = (\<lambda>c. \<not> fle (float_of_double (cv_contourArea cv c)) (Fin 0))"
    by (simp add: candidate_None fun_eq_iff)
  then show ?thesis
    by (simp add: Find_candidates_def map_filter_def)
qed

lemma foldl_tally:
  "foldl tally r ds =
     r\<lparr>acceptedCentersPx := acceptedCentersPx r @ map centerPx (filter (\<lambda>d. accepted (metrics d)) ds),
       acceptedBoxesPx := acceptedBoxesPx r @ map boxPx (filter (\<lambda>d. accepted (metrics d)) ds),
       acceptedCount := acceptedCount r + int (length (filter (\<lambda>d. accepted (metrics d)) ds)),
       runScore := foldl std_max (runScore r) (map (\<lambda>d. score (metrics d)) (filter (\<lambda>d. accepted (metrics d)) ds))\<rparr>"
  by (induction ds arbitrary: r) (simp_all add: tally_def)

lemma Find_Inr:
  assumes "Find cv config hsv = Inr res"
  shows "Find_masks cv config hsv = Inr (masks_of cv config hsv)"
    and "res = Find_result cv config (masks_of cv config hsv)"
  using assms by (auto simp add: Find_def masks_of_def split: sum.splits)

lemma Find_result_fields:
  fixes cv config masks
  defines "res \<equiv> Find_result cv config masks"
  shows "detections res = std_sort cv detection_before (Find_candidates cv config masks)"
    and "rawCandidateCount res = int (length (cv_findContours cv (fst masks)))"
    and "acceptedCount res = int (length (filter (\<lambda>d. accepted (metrics d)) (detections res)))"
    and "acceptedCentersPx res = map centerPx (filter (\<lambda>d. accepted (metrics d)) (detections res))"
    and "acceptedBoxesPx res = map boxPx (filter (\<lambda>d. accepted (metrics d)) (detections res))"
    and "runScore res = foldl std_max (Fin 0)
           (map (\<lambda>d. score (metrics d)) (filter (\<lambda>d. accepted (metrics d)) (detections res)))"
    and "acceptedRatio res = SafeDiv (float_of_int (acceptedCount res))
           (float_of_int (max 1 (rawCandidateCount res)))"
  unfolding res_def
  by (simp_all add: Find_result_def Let_def foldl_tally split: prod.splits)

lemma detections_mset:
  assumes "Find cv config hsv = Inr res" and "permuted_by_library cv config hsv"
  shows "mset (detections res) = mset (Find_candidates cv config (masks_of cv config hsv))"
  using assms Find_Inr(2) [OF assms(1)]
  by (simp add: Find_result_fields(1) permuted_by_library_def)

lemma detection_candidate:
  assumes "Find cv config hsv = Inr res" and "permuted_by_library cv config hsv"
    and "d \<in> set (detections res)"
  shows "\<exists>cm sm em c. masks_of cv config hsv = (cm, sm, em)
    \<and> c \<in> set (contours_of cv config hsv)
    \<and> candidate cv config cm sm em c = Some d"
proof -
  obtain cm sm em where m: "masks_of cv config hsv = (cm, sm, em)"
    by (cases "masks_of cv config hsv")
  have "mset (detections res) = mset (Find_candidates cv config (cm, sm, em))"
    using detections_mset [OF assms(1,2)] by (simp add: m)
  then have "set (detections res) = set (Find_candidates cv config (cm, sm, em))"
    by (rule mset_eq_setD)
  with assms(3) obtain c where "c \<in> set (cv_findContours cv cm)"
      "candidate cv config cm sm em c = Some d"
    by (auto simp add: Find_candidates_set)
  then show ?thesis using m by (auto simp add: contours_of_def)
qed

lemma measured_area:
  assumes "measured_ok cv c"
  shows "\<exists>r. float_of_double (cv_contourArea cv c) = Fin r \<and> 0 \<le> r \<and> r \<le> 2 ^ 62"
proof -
  obtain a where a: "cv_contourArea cv c = Fin a" "0 \<le> a" "a \<le> 2 ^ 62"
    using assms by (auto simp add: measured_ok_def split: fp.splits)
  have "\<exists>r. f32 a = Fin r \<and> 0 \<le> r \<and> r \<le> 2 ^ 62"
    using a(2,3) by (intro f32_bounded) simp_all
  then show ?thesis by (simp add: a(1))
qed

lemma measured_area_zero:
  assumes "measured_ok cv c"
  shows "fle (float_of_double (cv_contourArea cv c)) (Fin 0)
         \<longleftrightarrow> float_of_double (cv_contourArea cv c) = Fin 0"
    and "\<not> fle (float_of_double (cv_contourArea cv c)) (Fin 0)
         \<longleftrightarrow> flt (Fin 0) (float_of_double (cv_contourArea cv c))"
    and "\<not> flt (Fin 0) (float_of_double (cv_contourArea cv c))
         \<longleftrightarrow> float_of_double (cv_contourArea cv c) = Fin 0"
  using measured_area [OF assms] by auto

lemma ComputeCircularity_not_nan:
  assumes "measured_ok cv c"
  shows "ComputeCircularity cv c \<noteq> NaN"
proof -
  define A where "A = float_of_double (cv_contourArea cv c)"
  define P where "P = float_of_double (cv_arcLength cv c)"
  obtain a0 where a0: "cv_contourArea cv c = Fin a0" "0 \<le> a0" "a0 \<le> 2 ^ 62"
    using assms by (auto simp add: measured_ok_def split: fp.splits)
  obtain a where a: "f32 a0 = Fin a" "0 \<le> a" "a \<le> 2 ^ 62"
    using f32_bounded [of a0 62] a0 by auto
  have A: "A = Fin a" by (simp add: A_def a0(1) a(1))
  have P: "P \<noteq> NaN"
    using assms unfolding P_def by (intro float_of_double_not_nan) (simp add: measured_ok_def is_nan_def)
  show ?thesis
  proof (cases "fle A (Fin 0) \<or> fle P (Fin 0)")
    case True
    then show ?thesis by (simp add: ComputeCircularity_def A_def P_def)
  next
    case False
    then have apos: "0 < a" by (simp add: A)
    then have amin: "power_int 2 (- 149) \<le> a" using a(1) by (rule f32_min_pos [rotated])
    obtain q where q: "fmul64 (Fin 4) CV_PI = Fin q" "8 \<le> q" "q \<le> 16"
      using four_pi_bounds by blast
    have lo: "power_int 2 (- 146) \<le> q * a"
    proof -
      have "2 ^ 3 * power_int 2 (- 149) \<le> q * a"
        using q(2) amin apos by (intro mult_mono) simp_all
      moreover have "(2 ^ 3 * power_int 2 (- 149) :: rat) = power_int 2 (- 146)"
        by (simp add: power_int_minus)
      ultimately show ?thesis by simp
    qed
    have hi: "q * a \<le> 2 ^ 66"
    proof -
      have "q * a \<le> 16 * 2 ^ 62" using q a apos by (intro mult_mono) simp_all
      then show ?thesis by simp
    qed
    have "0 < q * a" using q(2) apos by simp
    then obtain n where n: "f64 (q * a) = Fin n" "0 \<le> n"
      using f64_bounded [of "q * a" 66] hi by auto
    have "fle (Fin (power_int 2 (- 146))) (f64 (q * a))"
      using lo by (rule f64_ge) simp
    then have "power_int 2 (- 146) \<le> n" by (simp add: n(1))
    moreover have "(0::rat) < power_int 2 (- 146)" by simp
    ultimately have npos: "0 < n" by linarith
    have "fmul64 (Fin q) (Fin a) = Fin n"
      by (simp add: fmul64_def n(1))
    then have num: "fmul64 (fmul64 (Fin 4) CV_PI) A = Fin n"
      by (simp only: q(1) A)
    have den: "fmul32 P P = Infty False \<or> (\<exists>d\<ge>0. fmul32 P P = Fin d)"
    proof (cases P)
      case NaN
      with P show ?thesis by simp
    next
      case (Infty s)
      then show ?thesis by (simp add: fmul32_def)
    next
      case (Fin p)
      then show ?thesis using f32_nonneg [of "p * p"] by (simp add: fmul32_def)
    qed
    have "fdiv64 (Fin n) (fmul32 P P) \<noteq> NaN"
      using den npos by (auto simp add: fdiv64_def f64_not_nan split: if_splits)
    then have "float_of_double (fdiv64 (fmul64 (fmul64 (Fin 4) CV_PI) A) (fmul32 P P)) \<noteq> NaN"
      unfolding num by (rule float_of_double_not_nan)
    then show ?thesis using False
      by (simp add: ComputeCircularity_def A_def [symmetric] P_def [symmetric] Let_def)
  qed
qed

lemma circleArea_ge_one: "fle (Fin 1) (circleArea radius)"
proof -
  define X where "X = fmul32 (fmul32 (float_of_double CV_PI) radius) radius"
  show ?thesis
    by (cases X) (auto simp add: circleArea_def std_max_def X_def [symmetric])
qed

lemma SafeDiv_circleArea_not_nan: "SafeDiv (Fin a) (circleArea radius) \<noteq> NaN"
  using circleArea_ge_one [of radius]
  by (cases "circleArea radius") (auto simp add: SafeDiv_def fdiv32_def f32_not_nan)

lemma candidate_shape_unit:
  assumes "candidate cv config cm sm em c = Some d" and "measured_ok cv c"
  shows "in_unit_interval (circularity (metrics d))"
    and "in_unit_interval (centerFillRatio (metrics d))"
proof -
  show "in_unit_interval (circularity (metrics d))"
    unfolding candidate_Some(7) [OF assms(1)]
    by (rule Clamp01_unit) (rule ComputeCircularity_not_nan [OF assms(2)])
  obtain a where a: "float_of_double (cv_contourArea cv c) = Fin a"
    using measured_area [OF assms(2)] by blast
  show "in_unit_interval (centerFillRatio (metrics d))"
    unfolding candidate_Some(8) [OF assms(1)] candidate_Some(6) [OF assms(1)] a
    by (rule Clamp01_unit) (rule SafeDiv_circleArea_not_nan)
qed

lemma cv_countNonZero_bounds:
  "0 \<le> cv_countNonZero m" "cv_countNonZero m \<le> int (length (data m))"
  by (simp_all add: cv_countNonZero_def)

lemma data_cv_circle:
  "length (data (cv_circle cv img c r colour)) = length (data img)"
  "rows (cv_circle cv img c r colour) = rows img"
  "cols (cv_circle cv img c r colour) = cols img"
  by (simp_all add: cv_circle_def)


lemma length_ringMask:
  "length (data (ringMask cv ctx cm center radius)) = length (data cm)"
  by (simp add: ringMask_def data_cv_circle Mat_zeros_def)


lemma data_cv_bitwise:
  "data (cv_bitwise_and a b) = map2 (AND) (data a) (data b)"
  "data (cv_bitwise_xor a b) = map2 (XOR) (data a) (data b)"
  by (simp_all add: cv_bitwise_and_def cv_bitwise_xor_def cv_bitwise_def)

lemma length_validRingMask:
  "length (data (validRingMask ring em)) \<le> length (data ring)"
  by (simp add: validRingMask_def data_cv_bitwise)

lemma SafeDiv_counts_not_nan:
  assumes "0 \<le> s" "s \<le> 2 ^ 31" "0 \<le> v" "v \<le> 2 ^ 31"
  shows "SafeDiv (float_of_int s) (float_of_int v) \<noteq> NaN"
proof -
  obtain x where x: "float_of_int s = Fin x" using float_of_int_finite [OF assms(1,2)] by blast
  obtain y where y: "float_of_int v = Fin y" using float_of_int_finite [OF assms(3,4)] by blast
  show ?thesis
    by (auto simp add: SafeDiv_def x y fdiv32_def f32_not_nan)
qed

lemma ring_support_unit:
  assumes "length (data cm) < 2 ^ 31"
  shows "in_unit_interval (ring_support cv ctx cm sm em center radius)"
proof -
  define valid where "valid = validRingMask (ringMask cv ctx cm center radius) em"
  define sup where "sup = cv_bitwise_and sm valid"
  have lv: "length (data valid) \<le> length (data cm)"
    using length_validRingMask [of "ringMask cv ctx cm center radius" em]
    by (simp add: valid_def length_ringMask)
  have ls: "length (data sup) \<le> length (data cm)"
    using lv by (simp add: sup_def data_cv_bitwise)
  have "int (length (data cm)) \<le> 2 ^ 31"
    using assms by (metis less_imp_le of_nat_le_iff of_nat_numeral of_nat_power)
  then have v: "cv_countNonZero valid \<le> 2 ^ 31" and s: "cv_countNonZero sup \<le> 2 ^ 31"
    using cv_countNonZero_bounds(2) [of valid] cv_countNonZero_bounds(2) [of sup] lv ls
    by linarith+
  have "SafeDiv (float_of_int (cv_countNonZero sup)) (float_of_int (cv_countNonZero valid)) \<noteq> NaN"
    using s v by (intro SafeDiv_counts_not_nan cv_countNonZero_bounds)
  then have "in_unit_interval (Clamp01
      (SafeDiv (float_of_int (cv_countNonZero sup)) (float_of_int (cv_countNonZero valid))))"
    by (rule Clamp01_unit)
  then show ?thesis
    by (simp add: ring_support_def Let_def valid_def sup_def)
qed

lemma candidate_score_unit:
  assumes "candidate cv config cm sm em c = Some d" and "measured_ok cv c"
    and "length (data cm) < 2 ^ 31"
  shows "in_unit_interval (ringSupportRatio (metrics d))"
    and "in_unit_interval (score (metrics d))"
proof -
  have c: "in_unit_interval (circularity (metrics d))"
    and f: "in_unit_interval (centerFillRatio (metrics d))"
    using candidate_shape_unit [OF assms(1,2)] by simp_all
  show g: "in_unit_interval (ringSupportRatio (metrics d))"
    unfolding candidate_Some(9) [OF assms(1)]
    using ring_support_unit [OF assms(3)] by (simp add: in_unit_interval_def)
  show "in_unit_interval (score (metrics d))"
    unfolding candidate_Some(14) [OF assms(1)]
    using score_unit [OF c f g] by (simp split: if_splits)
qed

lemma std_max_fold:
  assumes "s \<noteq> NaN" and "\<forall>x \<in> set xs. x \<noteq> NaN"
  shows "fle s (foldl std_max s xs) \<and> (\<forall>x \<in> set xs. fle x (foldl std_max s xs))
       \<and> (foldl std_max s xs = s \<or> foldl std_max s xs \<in> set xs)"
  using assms
proof (induction xs arbitrary: s)
  case Nil
  then show ?case by (simp add: fle_refl)
next
  case (Cons x xs)
  define t where "t = std_max s x"
  have x: "x \<noteq> NaN" using Cons.prems(2) by simp
  have t: "t \<noteq> NaN" using Cons.prems(1) x by (simp add: t_def std_max_def)
  have st: "fle s t"
    using Cons.prems(1) x by (cases s; cases x) (auto simp add: t_def std_max_def)
  have xt: "fle x t"
    using Cons.prems(1) x by (cases s; cases x) (auto simp add: t_def std_max_def)
  have tt: "t = s \<or> t = x" by (simp add: t_def std_max_def)
  have IH: "fle t (foldl std_max t xs) \<and> (\<forall>y \<in> set xs. fle y (foldl std_max t xs))
       \<and> (foldl std_max t xs = t \<or> foldl std_max t xs \<in> set xs)"
    using Cons.IH [OF t] Cons.prems(2) by simp
  have f: "foldl std_max s (x # xs) = foldl std_max t xs" by (simp add: t_def)
  show ?case
    unfolding f using IH st xt tt by (auto intro: fle_trans)
qed

lemma detection_score_unit:
  assumes "Find cv config hsv = Inr res" and "permuted_by_library cv config hsv"
    and "measures_ok cv config hsv" and "sizes_ok cv config hsv"
    and "d \<in> set (detections res)"
  shows "in_unit_interval (score (metrics d))"
proof -
  obtain cm sm em c where c: "masks_of cv config hsv = (cm, sm, em)"
      "c \<in> set (contours_of cv config hsv)" "candidate cv config cm sm em c = Some d"
    using detection_candidate [OF assms(1,2,5)] by blast
  have ok: "measured_ok cv c"
    using assms(3) c(2) by (simp add: measures_ok_def list_all_iff)
  have "length (data cm) < 2 ^ 31"
    using assms(4) by (simp add: sizes_ok_def c(1))
  then show ?thesis by (rule candidate_score_unit(2) [OF c(3) ok])
qed

lemma unit_not_nan: "in_unit_interval a \<Longrightarrow> a \<noteq> NaN"
  by (auto simp add: in_unit_interval_iff)

lemma sorted_wrt_partition:
  assumes "sorted_wrt R xs" and "\<And>a b. R a b \<Longrightarrow> P b \<Longrightarrow> P a"
  shows "xs = filter P xs @ filter (\<lambda>x. \<not> P x) xs"
  using assms(1)
proof (induction xs)
  case Nil
  then show ?case by simp
next
  case (Cons x xs)
  then have IH: "xs = filter P xs @ filter (\<lambda>x. \<not> P x) xs" and R: "\<forall>y \<in> set xs. R x y"
    by simp_all
  show ?case
  proof (cases "P x")
    case True
    then show ?thesis using IH by simp
  next
    case False
    then have "\<forall>y \<in> set xs. \<not> P y" using R assms(2) by blast
    then have "filter P xs = []" "filter (\<lambda>x. \<not> P x) xs = xs"
      by (simp_all add: filter_empty_conv)
    with False show ?thesis by simp
  qed
qed

lemma not_before_accepted:
  "\<not> detection_before b a \<Longrightarrow> accepted (metrics b) \<Longrightarrow> accepted (metrics a)"
  by (cases "accepted (metrics a)") (simp_all add: detection_before_def)

lemma not_before_score:
  assumes "\<not> detection_before b a" and "accepted (metrics a) = accepted (metrics b)"
    and "score (metrics a) \<noteq> NaN" and "score (metrics b) \<noteq> NaN"
  shows "fge (score (metrics a)) (score (metrics b))"
  using assms not_flt_iff [of "score (metrics a)" "score (metrics b)"]
  by (simp add: detection_before_def fgt_def fge_def)

subsection \<open>The context ring\<close>




















section \<open>The small scene, evaluated\<close>

lemma ex_Find_masks: "Find_masks ex_cv ex_config ex_hsv = Inr (ex_centerMask, ex_supportMask, ex_excludeMask)"
  by code_simp

lemma ex_Find_masks_plain:
  "Find_masks ex_cv ex_config_plain ex_hsv = Inr (ex_centerMask, Mat_default, Mat_default)"
  by code_simp

lemma ex_masks_of:
  "masks_of ex_cv ex_config ex_hsv = (ex_centerMask, ex_supportMask, ex_excludeMask)"
  "masks_of ex_cv ex_config_plain ex_hsv = (ex_centerMask, Mat_default, Mat_default)"
  by (simp_all add: masks_of_def ex_Find_masks ex_Find_masks_plain)

lemma ex_Find:
  "Find ex_cv ex_config ex_hsv = Inr ex_result"
  "Find ex_cv ex_config_plain ex_hsv = Inr ex_result_plain"
  by (simp_all add: Find_def ex_Find_masks ex_Find_masks_plain ex_result_def ex_result_plain_def)

lemma ex_findContours: "cv_findContours ex_cv ex_centerMask = [ex_triangle, ex_square, ex_point]"
  by (simp add: ex_cv_def ex_centerMask_def cv_countNonZero_def)

lemma ex_contours_of:
  "contours_of ex_cv ex_config ex_hsv = [ex_triangle, ex_square, ex_point]"
  "contours_of ex_cv ex_config_plain ex_hsv = [ex_triangle, ex_square, ex_point]"
  by (simp_all add: contours_of_def ex_masks_of ex_findContours)

lemma f32_2: "f32 2 = Fin 2"
  by code_simp

lemma f32_4: "f32 4 = Fin 4"
  by code_simp

lemma f32_0: "f32 0 = Fin 0"
  by (simp add: f32_def fp_round_def)

lemma ex_areas:
  "float_of_double (cv_contourArea ex_cv ex_triangle) = Fin 2"
  "float_of_double (cv_contourArea ex_cv ex_square) = Fin 4"
  "float_of_double (cv_contourArea ex_cv ex_point) = Fin 0"
  by (simp_all add: ex_cv_def ex_triangle_def ex_square_def ex_point_def f32_2 f32_4 f32_0)

lemma ex_candidates:
  "\<exists>t s. Find_candidates ex_cv config (ex_centerMask, sm, em) = [t, s]
     \<and> candidate ex_cv config ex_centerMask sm em ex_triangle = Some t
     \<and> candidate ex_cv config ex_centerMask sm em ex_square = Some s"
proof -
  have "candidate ex_cv config ex_centerMask sm em ex_triangle \<noteq> None"
    by (simp add: candidate_None ex_areas)
  then obtain t where t: "candidate ex_cv config ex_centerMask sm em ex_triangle = Some t" by blast
  have "candidate ex_cv config ex_centerMask sm em ex_square \<noteq> None"
    by (simp add: candidate_None ex_areas)
  then obtain s where s: "candidate ex_cv config ex_centerMask sm em ex_square = Some s" by blast
  have p: "candidate ex_cv config ex_centerMask sm em ex_point = None"
    by (simp add: candidate_None ex_areas)
  show ?thesis
    by (simp add: Find_candidates_def ex_findContours map_filter_def t s p)
qed

lemma detection_before_asym: "detection_before a b \<Longrightarrow> \<not> detection_before b a"
  by (auto simp add: detection_before_def fgt_def dest: flt_asym)

lemma insertion_sort_two:
  assumes "\<And>a b. p a b \<Longrightarrow> \<not> p b a"
  shows "mset (insertion_sort p [x, y]) = mset [x, y]"
    and "sorted_wrt (\<lambda>a b. \<not> p b a) (insertion_sort p [x, y])"
  using assms by (auto simp add: insertion_sort_def)

lemma ex_sorted:
  "permuted_by_library ex_cv ex_config ex_hsv" "sorted_by_library ex_cv ex_config ex_hsv"
  "permuted_by_library ex_cv ex_config_plain ex_hsv" "sorted_by_library ex_cv ex_config_plain ex_hsv"
proof -
  have s: "std_sort ex_cv = insertion_sort" by (simp add: ex_cv_def)
  obtain t u where "Find_candidates ex_cv ex_config (ex_centerMask, ex_supportMask, ex_excludeMask) = [t, u]"
    using ex_candidates by blast
  then show "permuted_by_library ex_cv ex_config ex_hsv" "sorted_by_library ex_cv ex_config ex_hsv"
    using insertion_sort_two [of detection_before t u] detection_before_asym
    by (simp_all add: permuted_by_library_def sorted_by_library_def ex_masks_of s)
  obtain t u where "Find_candidates ex_cv ex_config_plain (ex_centerMask, Mat_default, Mat_default) = [t, u]"
    using ex_candidates by blast
  then show "permuted_by_library ex_cv ex_config_plain ex_hsv" "sorted_by_library ex_cv ex_config_plain ex_hsv"
    using insertion_sort_two [of detection_before t u] detection_before_asym
    by (simp_all add: permuted_by_library_def sorted_by_library_def ex_masks_of s)
qed

lemma ex_detections_length:
  "length (detections ex_result) = 2" "length (detections ex_result_plain) = 2"
proof -
  obtain t u where "Find_candidates ex_cv ex_config (ex_centerMask, ex_supportMask, ex_excludeMask) = [t, u]"
    using ex_candidates by blast
  then have "mset (detections ex_result) = mset [t, u]"
    using detections_mset [OF ex_Find(1) ex_sorted(1)] by (simp add: ex_masks_of)
  then have "size (mset (detections ex_result)) = size (mset [t, u])" by (rule arg_cong)
  then show "length (detections ex_result) = 2" by simp
  obtain t u where "Find_candidates ex_cv ex_config_plain (ex_centerMask, Mat_default, Mat_default) = [t, u]"
    using ex_candidates by blast
  then have "mset (detections ex_result_plain) = mset [t, u]"
    using detections_mset [OF ex_Find(2) ex_sorted(3)] by (simp add: ex_masks_of)
  then have "size (mset (detections ex_result_plain)) = size (mset [t, u])" by (rule arg_cong)
  then show "length (detections ex_result_plain) = 2" by simp
qed

lemma f32_1: "f32 1 = Fin 1"
  by code_simp

lemma f32_3: "f32 3 = Fin 3"
  by code_simp

lemma ex_sizes:
  "sizes_ok ex_cv ex_config ex_hsv" "sizes_ok ex_cv ex_config_plain ex_hsv"
  unfolding sizes_ok_def ex_masks_of fst_conv
  by (simp_all add: ex_centerMask_def ex_hsv_def Let_def)

section \<open>The divisors of the shape metrics\<close>

text \<open>
  The guard of \<^verbatim>\<open>ComputeCircularity\<close> tests the perimeter, and the divisor is its
  single-precision square. For a perimeter of at least 1 the square is at least 1.
\<close>

lemma float_of_double_ge_one: "fle (Fin 1) p \<Longrightarrow> fle (Fin 1) (float_of_double p)"
  by (cases p) (simp_all add: f32_ge_one)

lemma fmul32_square_nonzero:
  assumes "fle (Fin 1) P"
  shows "fmul32 P P \<noteq> Fin 0"
proof (cases P)
  case (Fin x)
  then have "1 \<le> x" using assms by simp
  then have "1 * 1 \<le> x * x" by (intro mult_mono) simp_all
  then have "fle (Fin 1) (f32 (x * x))" by (intro f32_ge_one) simp
  then show ?thesis by (cases "f32 (x * x)") (auto simp add: Fin fmul32_def)
next
  case (Infty s)
  then show ?thesis by (simp add: fmul32_def)
next
  case NaN
  then show ?thesis using assms by simp
qed

lemma pixel_perimeter_divisor:
  assumes "pixel_perimeter p" and "\<not> fle (float_of_double p) (Fin 0)"
  shows "fmul32 (float_of_double p) (float_of_double p) \<noteq> Fin 0"
proof -
  have "p \<noteq> Fin 0" using assms(2) by (auto simp add: f32_0)
  then have "fle (Fin 1) p" using assms(1) by (simp add: pixel_perimeter_def)
  then show ?thesis by (intro fmul32_square_nonzero float_of_double_ge_one)
qed

text \<open>
  The square of a positive perimeter below \<open>2^-75\<close> underflows to 0. No contour of pixels
  has such a perimeter; there the quotient would be \<open>+\<infinity>\<close> and the circularity, clamped, 1.
\<close>

lemma f32_tiny: "f32 (1 / 2 ^ 100) = Fin (1 / 2 ^ 100)"
  by code_simp

lemma f32_tiny_square: "f32 (1 / 2 ^ 100 * (1 / 2 ^ 100)) = Fin 0"
  by code_simp

lemma ComputeCircularity_underflow:
  assumes "cv_contourArea cv c = Fin 1" and "cv_arcLength cv c = Fin (1 / 2 ^ 100)"
  shows "fmul32 (float_of_double (cv_arcLength cv c)) (float_of_double (cv_arcLength cv c)) = Fin 0"
    and "ComputeCircularity cv c = Infty False"
    and "Clamp01 (ComputeCircularity cv c) = Fin 1"
proof -
  obtain q where q: "fmul64 (Fin 4) CV_PI = Fin q" "8 \<le> q" using four_pi_bounds by blast
  have "\<exists>r. f64 (q * 1) = Fin r \<and> 2 ^ 3 \<le> r \<and> r \<le> 2 ^ 4"
    using q four_pi_bounds by (intro f64_between) auto
  then obtain r where r0: "f64 (q * 1) = Fin r" and r8: "8 \<le> r" by auto
  have "fmul64 (Fin q) (Fin 1) = Fin r" using r0 by (simp add: fmul64_def)
  then have r: "fmul64 (fmul64 (Fin 4) CV_PI) (Fin 1) = Fin r" by (simp only: q(1))
  have P: "float_of_double (cv_arcLength cv c) = Fin (1 / 2 ^ 100)"
    by (simp only: assms(2) float_of_double.simps f32_tiny)
  have A: "float_of_double (cv_contourArea cv c) = Fin 1"
    by (simp only: assms(1) float_of_double.simps f32_1)
  have sq: "fmul32 (Fin (1 / 2 ^ 100)) (Fin (1 / 2 ^ 100)) = Fin 0"
    by (simp only: fmul32_def fp_mul.simps f32_tiny_square)
  have g1: "\<not> fle (Fin 1) (Fin 0)" by simp
  have g2: "\<not> fle (Fin (1 / 2 ^ 100)) (Fin 0)" by simp
  have dv: "fdiv64 (Fin r) (Fin 0) = Infty False" using r8 by (simp add: fdiv64_def)
  show "fmul32 (float_of_double (cv_arcLength cv c)) (float_of_double (cv_arcLength cv c)) = Fin 0"
    by (simp only: P sq)
  show cc: "ComputeCircularity cv c = Infty False"
    unfolding ComputeCircularity_def Let_def
    by (simp only: P A sq g1 g2 r dv simp_thms if_False float_of_double.simps)
  show "Clamp01 (ComputeCircularity cv c) = Fin 1"
    by (simp add: cc Clamp01_def fgt_def)
qed

section \<open>The detections of \<^verbatim>\<open>Find\<close>\<close>

text \<open>
  C1. For every detection of a result of \<^verbatim>\<open>Find\<close>, \<open>accepted\<close> is the conjunction of the
  four pass flags.
\<close>

theorem accepted_is_conjunction:
  assumes "Find cv config hsv = Inr res" and "permuted_by_library cv config hsv"
  shows "\<forall>d \<in> set (detections res).
           accepted (metrics d)
           = (passesArea (metrics d) \<and> passesCircularity (metrics d)
              \<and> passesCenterFill (metrics d) \<and> passesContext (metrics d))"
proof
  fix d assume d: "d \<in> set (detections res)"
  obtain cm sm em c where c: "candidate cv config cm sm em c = Some d"
    using detection_candidate [OF assms d] by blast
  show "accepted (metrics d)
           = (passesArea (metrics d) \<and> passesCircularity (metrics d)
              \<and> passesCenterFill (metrics d) \<and> passesContext (metrics d))"
    by (rule candidate_Some(15) [OF c])
qed

theorem accepted_is_conjunction_witness:
  "Find ex_cv ex_config ex_hsv = Inr ex_result
   \<and> permuted_by_library ex_cv ex_config ex_hsv
   \<and> length (detections ex_result) = 2
   \<and> list_all (\<lambda>d. accepted (metrics d)
           = (passesArea (metrics d) \<and> passesCircularity (metrics d)
              \<and> passesCenterFill (metrics d) \<and> passesContext (metrics d)))
        (detections ex_result)"
  using accepted_is_conjunction [OF ex_Find(1) ex_sorted(1)] ex_Find(1) ex_sorted(1)
    ex_detections_length(1)
  by (simp add: list_all_iff)

text \<open>
  C9. With the context ring disabled, every detection has the ring support ratio 1 and
  passes the context check, whatever the frame and the support and exclusion colours.
\<close>

theorem disabled_context_passes:
  assumes "Find cv config hsv = Inr res" and "permuted_by_library cv config hsv"
    and "\<not> enabled (contextRing config)"
  shows "\<forall>d \<in> set (detections res).
           ringSupportRatio (metrics d) = Fin 1 \<and> passesContext (metrics d)"
proof
  fix d assume d: "d \<in> set (detections res)"
  obtain cm sm em c where c: "candidate cv config cm sm em c = Some d"
    using detection_candidate [OF assms(1,2) d] by blast
  show "ringSupportRatio (metrics d) = Fin 1 \<and> passesContext (metrics d)"
    using candidate_Some(9,13) [OF c] assms(3) by simp
qed

theorem disabled_context_passes_witness:
  "Find ex_cv ex_config_plain ex_hsv = Inr ex_result_plain
   \<and> permuted_by_library ex_cv ex_config_plain ex_hsv
   \<and> \<not> enabled (contextRing ex_config_plain)
   \<and> length (detections ex_result_plain) = 2
   \<and> list_all (\<lambda>d. ringSupportRatio (metrics d) = Fin 1 \<and> passesContext (metrics d))
        (detections ex_result_plain)"
proof -
  have off: "\<not> enabled (contextRing ex_config_plain)"
    by (simp add: ex_config_plain_def)
  show ?thesis
    using disabled_context_passes [OF ex_Find(2) ex_sorted(3) off] ex_Find(2) ex_sorted(3) off
      ex_detections_length(2)
    by (simp add: list_all_iff)
qed

text \<open>
  C10. The raw candidate count is the number of external contours of the cleaned centre
  mask, those of measured area zero included, while the detections are the contours of
  positive area: every detection has a positive area, the detections are no more than
  the raw candidates, and the difference is the number of contours of area zero.
\<close>

theorem raw_count_includes_zero_area:
  assumes "Find cv config hsv = Inr res" and "permuted_by_library cv config hsv"
    and "measures_ok cv config hsv"
  shows "rawCandidateCount res = int (length (contours_of cv config hsv))
     \<and> (\<forall>d \<in> set (detections res).
           flt (Fin 0) (areaPx (metrics d)) \<and> contour d \<in> set (contours_of cv config hsv)
           \<and> areaPx (metrics d) = float_of_double (cv_contourArea cv (contour d)))
     \<and> length (detections res)
         = length (filter (\<lambda>c. flt (Fin 0) (float_of_double (cv_contourArea cv c)))
             (contours_of cv config hsv))
     \<and> int (length (detections res)) \<le> rawCandidateCount res
     \<and> rawCandidateCount res - int (length (detections res))
         = int (length (filter (\<lambda>c. float_of_double (cv_contourArea cv c) = Fin 0)
             (contours_of cv config hsv)))
     \<and> (rawCandidateCount res \<noteq> int (length (detections res))
         \<longleftrightarrow> (\<exists>c \<in> set (contours_of cv config hsv). float_of_double (cv_contourArea cv c) = Fin 0))"
proof -
  let ?cs = "contours_of cv config hsv"
  let ?area = "\<lambda>c. float_of_double (cv_contourArea cv c)"
  obtain cm sm em where m: "masks_of cv config hsv = (cm, sm, em)"
    by (cases "masks_of cv config hsv")
  have res: "res = Find_result cv config (cm, sm, em)"
    using Find_Inr(2) [OF assms(1)] by (simp add: m)
  have cs: "?cs = cv_findContours cv cm" by (simp add: contours_of_def m)
  have ok: "\<forall>c \<in> set ?cs. measured_ok cv c"
    using assms(3) by (simp add: measures_ok_def list_all_iff)
  have raw: "rawCandidateCount res = int (length ?cs)"
    by (simp add: res Find_result_fields(2) cs)
  have "size (mset (detections res)) = size (mset (Find_candidates cv config (cm, sm, em)))"
    using detections_mset [OF assms(1,2)] by (simp add: m)
  then have "length (detections res) = length (filter (\<lambda>c. \<not> fle (?area c) (Fin 0)) ?cs)"
    by (simp add: Find_candidates_length cs)
  moreover have "filter (\<lambda>c. \<not> fle (?area c) (Fin 0)) ?cs = filter (\<lambda>c. flt (Fin 0) (?area c)) ?cs"
    using ok by (intro filter_cong) (simp_all add: measured_area_zero(2))
  ultimately have len: "length (detections res) = length (filter (\<lambda>c. flt (Fin 0) (?area c)) ?cs)"
    by simp
  have zero: "filter (\<lambda>c. \<not> flt (Fin 0) (?area c)) ?cs = filter (\<lambda>c. ?area c = Fin 0) ?cs"
    using ok by (intro filter_cong) (simp_all add: measured_area_zero(3))
  have split: "length ?cs = length (filter (\<lambda>c. flt (Fin 0) (?area c)) ?cs)
                 + length (filter (\<lambda>c. ?area c = Fin 0) ?cs)"
    using sum_length_filter_compl [of "\<lambda>c. flt (Fin 0) (?area c)" ?cs] by (simp add: zero)
  have dets: "\<forall>d \<in> set (detections res).
      flt (Fin 0) (areaPx (metrics d)) \<and> contour d \<in> set ?cs
      \<and> areaPx (metrics d) = ?area (contour d)"
  proof
    fix d assume d: "d \<in> set (detections res)"
    obtain cm' sm' em' c where c: "c \<in> set ?cs" "candidate cv config cm' sm' em' c = Some d"
      using detection_candidate [OF assms(1,2) d] by auto
    show "flt (Fin 0) (areaPx (metrics d)) \<and> contour d \<in> set ?cs
      \<and> areaPx (metrics d) = ?area (contour d)"
      using candidate_Some(1,2,6) [OF c(2)] c(1) ok measured_area_zero(2) [of cv c]
      by simp
  qed
  have le: "int (length (detections res)) \<le> rawCandidateCount res"
    using split by (simp add: raw len)
  have minus: "rawCandidateCount res - int (length (detections res))
      = int (length (filter (\<lambda>c. ?area c = Fin 0) ?cs))"
    using split by (simp add: raw len)
  have diff: "(rawCandidateCount res \<noteq> int (length (detections res)))
      \<longleftrightarrow> (\<exists>c \<in> set ?cs. ?area c = Fin 0)"
    using split by (auto simp add: raw len filter_empty_conv)
  show ?thesis
    by (intro conjI) (fact raw dets len le minus diff)+
qed

lemma ex_measures:
  "measures_ok ex_cv ex_config ex_hsv" "measures_ok ex_cv ex_config_plain ex_hsv"
  by (simp_all add: measures_ok_def ex_contours_of measured_ok_def is_nan_def)
     (simp_all add: ex_cv_def ex_triangle_def ex_square_def ex_point_def)

lemma ex_perimeters:
  "perimeters_ok ex_cv ex_config ex_hsv" "perimeters_ok ex_cv ex_config_plain ex_hsv"
  by (simp_all add: perimeters_ok_def ex_contours_of pixel_perimeter_def)
     (simp_all add: ex_cv_def ex_triangle_def ex_square_def ex_point_def)

theorem raw_count_includes_zero_area_witness:
  "Find ex_cv ex_config ex_hsv = Inr ex_result
   \<and> permuted_by_library ex_cv ex_config ex_hsv
   \<and> measures_ok ex_cv ex_config ex_hsv
   \<and> rawCandidateCount ex_result = 3
   \<and> length (detections ex_result) = 2
   \<and> length (filter (\<lambda>c. float_of_double (cv_contourArea ex_cv c) = Fin 0)
         (contours_of ex_cv ex_config ex_hsv)) = 1
   \<and> list_all (\<lambda>d. flt (Fin 0) (areaPx (metrics d))) (detections ex_result)"
proof -
  have "rawCandidateCount ex_result = 3"
    using raw_count_includes_zero_area [OF ex_Find(1) ex_sorted(1) ex_measures(1)]
    by (simp add: ex_contours_of)
  moreover have "list_all (\<lambda>d. flt (Fin 0) (areaPx (metrics d))) (detections ex_result)"
    unfolding list_all_iff
    using raw_count_includes_zero_area [OF ex_Find(1) ex_sorted(1) ex_measures(1)]
    by blast
  moreover have "length (filter (\<lambda>c. float_of_double (cv_contourArea ex_cv c) = Fin 0)
         (contours_of ex_cv ex_config ex_hsv)) = 1"
    by (simp add: ex_contours_of ex_areas)
  ultimately show ?thesis
    using ex_Find(1) ex_sorted(1) ex_measures(1) ex_detections_length(1) by simp
qed

text \<open>
  C8. The accepted ratio is the accepted count divided by the larger of 1 and the raw
  candidate count, both as floats; the divisor is positive, so the division is a division
  by a number other than zero; with no candidate the ratio is 0.
\<close>

theorem acceptedRatio_is_quotient:
  assumes "Find cv config hsv = Inr res" and "permuted_by_library cv config hsv"
  shows "acceptedRatio res
           = fdiv32 (float_of_int (acceptedCount res)) (float_of_int (max 1 (rawCandidateCount res)))
     \<and> flt (Fin 0) (float_of_int (max 1 (rawCandidateCount res)))
     \<and> acceptedCount res = int (length (filter (\<lambda>d. accepted (metrics d)) (detections res)))
     \<and> (rawCandidateCount res = 0 \<longrightarrow> acceptedCount res = 0 \<and> acceptedRatio res = Fin 0)"
proof -
  obtain cm sm em where m: "masks_of cv config hsv = (cm, sm, em)"
    by (cases "masks_of cv config hsv")
  have res: "res = Find_result cv config (cm, sm, em)"
    using Find_Inr(2) [OF assms(1)] by (simp add: m)
  have pos: "flt (Fin 0) (float_of_int (max 1 (rawCandidateCount res)))"
    by (rule float_of_int_pos) simp
  have ratio: "acceptedRatio res
      = fdiv32 (float_of_int (acceptedCount res)) (float_of_int (max 1 (rawCandidateCount res)))"
    using flt_not_fle [OF pos] by (simp add: res Find_result_fields(7) SafeDiv_def)
  have count: "acceptedCount res = int (length (filter (\<lambda>d. accepted (metrics d)) (detections res)))"
    by (simp add: res Find_result_fields(3))
  have none: "acceptedCount res = 0 \<and> acceptedRatio res = Fin 0" if raw: "rawCandidateCount res = 0"
  proof -
    have "cv_findContours cv cm = []"
      using raw by (simp add: res Find_result_fields(2))
    then have "Find_candidates cv config (cm, sm, em) = []"
      by (simp add: Find_candidates_def map_filter_def)
    then have "mset (detections res) = {#}"
      using detections_mset [OF assms] by (simp add: m)
    then have "detections res = []" by simp
    then have c: "acceptedCount res = 0" by (simp add: count)
    have "fle (Fin 1) (float_of_int 1)"
      using f32_ge_one [of 1] by (simp add: float_of_int_def)
    then have "fdiv32 (Fin 0) (float_of_int 1) = Fin 0" by (rule fdiv32_zero)
    then show ?thesis using c ratio raw by (simp add: float_of_int_0)
  qed
  show ?thesis using ratio pos count none by blast
qed

theorem acceptedRatio_is_quotient_witness:
  "Find ex_cv ex_config ex_hsv = Inr ex_result
   \<and> permuted_by_library ex_cv ex_config ex_hsv
   \<and> rawCandidateCount ex_result = 3
   \<and> acceptedRatio ex_result = fdiv32 (float_of_int (acceptedCount ex_result)) (Fin 3)"
proof -
  have raw: "rawCandidateCount ex_result = 3"
    by (simp add: ex_result_def Find_result_fields(2) ex_findContours)
  have "float_of_int (max 1 (rawCandidateCount ex_result)) = Fin 3"
    by (simp add: raw float_of_int_def f32_3)
  then show ?thesis
    using acceptedRatio_is_quotient [OF ex_Find(1) ex_sorted(1)] ex_Find(1) ex_sorted(1) raw
    by simp
qed

text \<open>
  C7. For every detection the circularity and the centre fill ratio lie in the unit
  interval. The circularity of a contour is 0 when its area or its perimeter is not
  positive, and otherwise the quotient of a division by the square of the perimeter,
  which is not zero for the perimeter of a contour of pixels. The divisor of the fill
  ratio, \<open>circleArea\<close>, is at least 1 for every radius, so the fill ratio is the
  clamped quotient of a division by a number that is not zero. Neither metric divides
  by zero.
\<close>

theorem shape_metrics_in_unit_interval:
  assumes "Find cv config hsv = Inr res" and "permuted_by_library cv config hsv"
    and "measures_ok cv config hsv" and "perimeters_ok cv config hsv"
  shows "(\<forall>d \<in> set (detections res).
            in_unit_interval (circularity (metrics d))
            \<and> in_unit_interval (centerFillRatio (metrics d))
            \<and> circularity (metrics d) = Clamp01 (ComputeCircularity cv (contour d))
            \<and> centerFillRatio (metrics d)
                = Clamp01 (fdiv32 (areaPx (metrics d)) (circleArea (radiusPx d)))
            \<and> circleArea (radiusPx d) \<noteq> Fin 0
            \<and> (let area = float_of_double (cv_contourArea cv (contour d));
                    perimeter = float_of_double (cv_arcLength cv (contour d))
                in if fle area (Fin 0) \<or> fle perimeter (Fin 0)
                   then ComputeCircularity cv (contour d) = Fin 0
                   else fmul32 perimeter perimeter \<noteq> Fin 0
                        \<and> ComputeCircularity cv (contour d)
                            = float_of_double
                                (fdiv64 (fmul64 (fmul64 (Fin 4) CV_PI) area)
                                        (fmul32 perimeter perimeter))))
       \<and> (\<forall>c. fle (float_of_double (cv_contourArea cv c)) (Fin 0)
               \<or> fle (float_of_double (cv_arcLength cv c)) (Fin 0)
             \<longrightarrow> ComputeCircularity cv c = Fin 0)
       \<and> (\<forall>radius. fle (Fin 1) (circleArea radius))"
proof -
  have dets: "in_unit_interval (circularity (metrics d))
            \<and> in_unit_interval (centerFillRatio (metrics d))
            \<and> circularity (metrics d) = Clamp01 (ComputeCircularity cv (contour d))
            \<and> centerFillRatio (metrics d)
                = Clamp01 (fdiv32 (areaPx (metrics d)) (circleArea (radiusPx d)))
            \<and> circleArea (radiusPx d) \<noteq> Fin 0
            \<and> (let area = float_of_double (cv_contourArea cv (contour d));
                    perimeter = float_of_double (cv_arcLength cv (contour d))
                in if fle area (Fin 0) \<or> fle perimeter (Fin 0)
                   then ComputeCircularity cv (contour d) = Fin 0
                   else fmul32 perimeter perimeter \<noteq> Fin 0
                        \<and> ComputeCircularity cv (contour d)
                            = float_of_double
                                (fdiv64 (fmul64 (fmul64 (Fin 4) CV_PI) area)
                                        (fmul32 perimeter perimeter)))"
    if d: "d \<in> set (detections res)" for d
  proof -
    obtain cm sm em c where c: "c \<in> set (contours_of cv config hsv)"
        "candidate cv config cm sm em c = Some d"
      using detection_candidate [OF assms(1,2) d] by blast
    have ok: "measured_ok cv c"
      using assms(3) c(1) by (simp add: measures_ok_def list_all_iff)
    have px: "pixel_perimeter (cv_arcLength cv c)"
      using assms(4) c(1) by (simp add: perimeters_ok_def list_all_iff)
    have cd: "contour d = c" by (rule candidate_Some(2) [OF c(2)])
    have one: "fle (Fin 1) (circleArea (radiusPx d))" by (rule circleArea_ge_one)
    then have nz: "circleArea (radiusPx d) \<noteq> Fin 0" by auto
    have "\<not> fle (circleArea (radiusPx d)) (Fin 0)"
      using one by (cases "circleArea (radiusPx d)") auto
    then have fill: "centerFillRatio (metrics d)
        = Clamp01 (fdiv32 (areaPx (metrics d)) (circleArea (radiusPx d)))"
      by (simp add: candidate_Some(8) [OF c(2)] SafeDiv_def)
    have circ: "circularity (metrics d) = Clamp01 (ComputeCircularity cv (contour d))"
      by (simp add: candidate_Some(7) [OF c(2)] cd)
    have div: "fmul32 (float_of_double (cv_arcLength cv c)) (float_of_double (cv_arcLength cv c))
                 \<noteq> Fin 0"
      if "\<not> fle (float_of_double (cv_arcLength cv c)) (Fin 0)"
      using px that by (rule pixel_perimeter_divisor)
    have cases: "let area = float_of_double (cv_contourArea cv (contour d));
                    perimeter = float_of_double (cv_arcLength cv (contour d))
                in if fle area (Fin 0) \<or> fle perimeter (Fin 0)
                   then ComputeCircularity cv (contour d) = Fin 0
                   else fmul32 perimeter perimeter \<noteq> Fin 0
                        \<and> ComputeCircularity cv (contour d)
                            = float_of_double
                                (fdiv64 (fmul64 (fmul64 (Fin 4) CV_PI) area)
                                        (fmul32 perimeter perimeter))"
      unfolding cd Let_def using div by (simp add: ComputeCircularity_def Let_def)
    show ?thesis
      using candidate_shape_unit [OF c(2) ok] fill circ nz cases by (intro conjI) simp_all
  qed
  have zero: "ComputeCircularity cv c = Fin 0"
    if "fle (float_of_double (cv_contourArea cv c)) (Fin 0)
        \<or> fle (float_of_double (cv_arcLength cv c)) (Fin 0)" for c
    using that by (auto simp add: ComputeCircularity_def Let_def)
  show ?thesis using dets zero circleArea_ge_one by blast
qed

theorem shape_metrics_in_unit_interval_witness:
  "Find ex_cv ex_config ex_hsv = Inr ex_result
   \<and> permuted_by_library ex_cv ex_config ex_hsv
   \<and> measures_ok ex_cv ex_config ex_hsv
   \<and> perimeters_ok ex_cv ex_config ex_hsv
   \<and> length (detections ex_result) = 2
   \<and> list_all (\<lambda>d. in_unit_interval (circularity (metrics d))
                  \<and> in_unit_interval (centerFillRatio (metrics d))
                  \<and> circleArea (radiusPx d) \<noteq> Fin 0)
        (detections ex_result)
   \<and> fle (float_of_double (cv_contourArea ex_cv ex_point)) (Fin 0)
   \<and> ComputeCircularity ex_cv ex_point = Fin 0"
proof -
  note inst = shape_metrics_in_unit_interval
                [OF ex_Find(1) ex_sorted(1) ex_measures(1) ex_perimeters(1)]
  have z: "fle (float_of_double (cv_contourArea ex_cv ex_point)) (Fin 0)"
    by (simp add: ex_areas)
  have "list_all (\<lambda>d. in_unit_interval (circularity (metrics d))
                  \<and> in_unit_interval (centerFillRatio (metrics d))
                  \<and> circleArea (radiusPx d) \<noteq> Fin 0)
        (detections ex_result)"
    unfolding list_all_iff using inst by blast
  moreover have "ComputeCircularity ex_cv ex_point = Fin 0"
    using inst z by blast
  ultimately show ?thesis
    using ex_Find(1) ex_sorted(1) ex_measures(1) ex_perimeters(1) ex_detections_length(1) z
    by simp
qed

text \<open>
  C3. The score of a detection is the clamped weighted sum of the specification, in
  single precision: of circularity and fill ratio alone without the context ring, and of
  that sum and the ring support ratio with it. The score of a run is the maximum score
  among its accepted detections, and 0 when none is accepted.
\<close>

theorem score_is_weighted_sum:
  assumes "Find cv config hsv = Inr res" and "permuted_by_library cv config hsv"
    and "measures_ok cv config hsv" and "sizes_ok cv config hsv"
  shows "(\<forall>d \<in> set (detections res).
            score (metrics d) =
              (if enabled (contextRing config)
               then Clamp01 (fadd32
                      (fmul32 (f32 (60 / 100))
                         (fadd32 (fmul32 (f32 (55 / 100)) (circularity (metrics d)))
                                 (fmul32 (f32 (45 / 100)) (centerFillRatio (metrics d)))))
                      (fmul32 (f32 (40 / 100)) (ringSupportRatio (metrics d))))
               else Clamp01 (fadd32 (fmul32 (f32 (55 / 100)) (circularity (metrics d)))
                                    (fmul32 (f32 (45 / 100)) (centerFillRatio (metrics d))))))
       \<and> (if list_ex (\<lambda>d. accepted (metrics d)) (detections res)
          then max_accepted_score (detections res) (runScore res)
          else runScore res = Fin 0)"
proof -
  have formula: "score (metrics d) =
              (if enabled (contextRing config)
               then Clamp01 (fadd32
                      (fmul32 (f32 (60 / 100))
                         (fadd32 (fmul32 (f32 (55 / 100)) (circularity (metrics d)))
                                 (fmul32 (f32 (45 / 100)) (centerFillRatio (metrics d)))))
                      (fmul32 (f32 (40 / 100)) (ringSupportRatio (metrics d))))
               else Clamp01 (fadd32 (fmul32 (f32 (55 / 100)) (circularity (metrics d)))
                                    (fmul32 (f32 (45 / 100)) (centerFillRatio (metrics d)))))"
    if d: "d \<in> set (detections res)" for d
  proof -
    obtain cm sm em c where c: "candidate cv config cm sm em c = Some d"
      using detection_candidate [OF assms(1,2) d] by blast
    show ?thesis
      unfolding candidate_Some(14) [OF c]
      by (simp only: fmul32_commute [of "f32 (60 / 100)"] fmul32_commute [of "f32 (55 / 100)"]
            fmul32_commute [of "f32 (45 / 100)"] fmul32_commute [of "f32 (40 / 100)"])
  qed
  define acc where "acc = filter (\<lambda>d. accepted (metrics d)) (detections res)"
  define xs where "xs = map (\<lambda>d. score (metrics d)) acc"
  have run: "runScore res = foldl std_max (Fin 0) xs"
    using Find_Inr(2) [OF assms(1)] by (simp add: Find_result_fields(6) xs_def acc_def)
  have unit: "\<forall>x \<in> set xs. in_unit_interval x"
    using detection_score_unit [OF assms] by (auto simp add: xs_def acc_def)
  then have nn: "\<forall>x \<in> set xs. x \<noteq> NaN" by (auto dest: unit_not_nan)
  have fold: "(\<forall>x \<in> set xs. fle x (runScore res))
       \<and> (runScore res = Fin 0 \<or> runScore res \<in> set xs)"
    using std_max_fold [of "Fin 0" xs] nn by (simp add: run)
  have none: "runScore res = Fin 0" if "\<not> list_ex (\<lambda>d. accepted (metrics d)) (detections res)"
  proof -
    have "acc = []" using that by (simp add: acc_def list_ex_iff filter_empty_conv)
    then show ?thesis by (simp add: run xs_def)
  qed
  have some: "max_accepted_score (detections res) (runScore res)"
    if "list_ex (\<lambda>d. accepted (metrics d)) (detections res)"
  proof -
    have ne: "xs \<noteq> []" using that by (auto simp add: xs_def acc_def list_ex_iff filter_empty_conv)
    have mem: "runScore res \<in> set xs"
    proof (cases "runScore res \<in> set xs")
      case True
      then show ?thesis .
    next
      case False
      with fold have z: "runScore res = Fin 0" by blast
      obtain x where x: "x \<in> set xs" using ne by (cases xs) auto
      have "fle x (Fin 0)" using fold x z by simp
      moreover have "fle (Fin 0) x" using unit x by (simp add: in_unit_interval_def)
      ultimately have "x = Fin 0" by (rule fle_antisym)
      with x z show ?thesis by simp
    qed
    then have "\<exists>d \<in> set (detections res). accepted (metrics d) \<and> score (metrics d) = runScore res"
      by (auto simp add: xs_def acc_def)
    moreover have "\<forall>d \<in> set (detections res). accepted (metrics d) \<longrightarrow> fle (score (metrics d)) (runScore res)"
      using fold by (auto simp add: xs_def acc_def)
    ultimately show ?thesis by (simp add: max_accepted_score_def)
  qed
  show ?thesis using formula none some by (simp split: if_splits)
qed

theorem score_is_weighted_sum_witness:
  "Find ex_cv ex_config ex_hsv = Inr ex_result
   \<and> permuted_by_library ex_cv ex_config ex_hsv
   \<and> measures_ok ex_cv ex_config ex_hsv
   \<and> sizes_ok ex_cv ex_config ex_hsv
   \<and> enabled (contextRing ex_config)
   \<and> length (detections ex_result) = 2
   \<and> list_all (\<lambda>d. score (metrics d) =
          Clamp01 (fadd32
            (fmul32 (f32 (60 / 100))
               (fadd32 (fmul32 (f32 (55 / 100)) (circularity (metrics d)))
                       (fmul32 (f32 (45 / 100)) (centerFillRatio (metrics d)))))
            (fmul32 (f32 (40 / 100)) (ringSupportRatio (metrics d)))))
        (detections ex_result)
   \<and> (if list_ex (\<lambda>d. accepted (metrics d)) (detections ex_result)
       then max_accepted_score (detections ex_result) (runScore ex_result)
       else runScore ex_result = Fin 0)"
proof -
  note inst = score_is_weighted_sum [OF ex_Find(1) ex_sorted(1) ex_measures(1) ex_sizes(1)]
  have on: "enabled (contextRing ex_config)"
    by (simp add: ex_config_def BuildDefaultPatternConfig_def)
  have "list_all (\<lambda>d. score (metrics d) =
          Clamp01 (fadd32
            (fmul32 (f32 (60 / 100))
               (fadd32 (fmul32 (f32 (55 / 100)) (circularity (metrics d)))
                       (fmul32 (f32 (45 / 100)) (centerFillRatio (metrics d)))))
            (fmul32 (f32 (40 / 100)) (ringSupportRatio (metrics d)))))
        (detections ex_result)"
    unfolding list_all_iff using inst on by simp
  moreover have "if list_ex (\<lambda>d. accepted (metrics d)) (detections ex_result)
       then max_accepted_score (detections ex_result) (runScore ex_result)
       else runScore ex_result = Fin 0"
    using inst by blast
  ultimately show ?thesis
    using ex_Find(1) ex_sorted(1) ex_measures(1) ex_sizes(1) on ex_detections_length(1)
    by simp
qed

text \<open>
  C4. In the detections of a result all accepted detections come before all rejected
  ones, and within each of the two groups the scores do not increase.
\<close>

theorem accepted_first_scores_descending:
  assumes "Find cv config hsv = Inr res" and "permuted_by_library cv config hsv"
    and "sorted_by_library cv config hsv"
    and "measures_ok cv config hsv" and "sizes_ok cv config hsv"
  shows "detections res
           = filter (\<lambda>d. accepted (metrics d)) (detections res)
             @ filter (\<lambda>d. \<not> accepted (metrics d)) (detections res)
       \<and> scores_descend (filter (\<lambda>d. accepted (metrics d)) (detections res))
       \<and> scores_descend (filter (\<lambda>d. \<not> accepted (metrics d)) (detections res))"
proof -
  let ?R = "\<lambda>a b. \<not> detection_before b a"
  have sorted: "sorted_wrt ?R (detections res)"
    using assms(3) Find_Inr(2) [OF assms(1)]
    by (simp add: sorted_by_library_def Find_result_fields(1))
  have nn: "score (metrics d) \<noteq> NaN" if "d \<in> set (detections res)" for d
    using detection_score_unit [OF assms(1,2,4,5) that] by (rule unit_not_nan)
  have part: "detections res
           = filter (\<lambda>d. accepted (metrics d)) (detections res)
             @ filter (\<lambda>d. \<not> accepted (metrics d)) (detections res)"
    using sorted by (rule sorted_wrt_partition) (rule not_before_accepted)
  have acc: "scores_descend (filter (\<lambda>d. accepted (metrics d)) (detections res))"
    unfolding scores_descend_def
  proof (rule sorted_wrt_mono_rel)
    show "sorted_wrt ?R (filter (\<lambda>d. accepted (metrics d)) (detections res))"
      using sorted by (rule sorted_wrt_filter)
    fix a b
    assume "a \<in> set (filter (\<lambda>d. accepted (metrics d)) (detections res))"
      and "b \<in> set (filter (\<lambda>d. accepted (metrics d)) (detections res))"
      and "\<not> detection_before b a"
    then show "fge (score (metrics a)) (score (metrics b))"
      using nn by (intro not_before_score) simp_all
  qed
  have rej: "scores_descend (filter (\<lambda>d. \<not> accepted (metrics d)) (detections res))"
    unfolding scores_descend_def
  proof (rule sorted_wrt_mono_rel)
    show "sorted_wrt ?R (filter (\<lambda>d. \<not> accepted (metrics d)) (detections res))"
      using sorted by (rule sorted_wrt_filter)
    fix a b
    assume "a \<in> set (filter (\<lambda>d. \<not> accepted (metrics d)) (detections res))"
      and "b \<in> set (filter (\<lambda>d. \<not> accepted (metrics d)) (detections res))"
      and "\<not> detection_before b a"
    then show "fge (score (metrics a)) (score (metrics b))"
      using nn by (intro not_before_score) simp_all
  qed
  show ?thesis using part acc rej by blast
qed

theorem accepted_first_scores_descending_witness:
  "Find ex_cv ex_config ex_hsv = Inr ex_result
   \<and> permuted_by_library ex_cv ex_config ex_hsv
   \<and> sorted_by_library ex_cv ex_config ex_hsv
   \<and> measures_ok ex_cv ex_config ex_hsv
   \<and> sizes_ok ex_cv ex_config ex_hsv
   \<and> length (detections ex_result) = 2
   \<and> detections ex_result
       = filter (\<lambda>d. accepted (metrics d)) (detections ex_result)
         @ filter (\<lambda>d. \<not> accepted (metrics d)) (detections ex_result)
   \<and> scores_descend (filter (\<lambda>d. accepted (metrics d)) (detections ex_result))
   \<and> scores_descend (filter (\<lambda>d. \<not> accepted (metrics d)) (detections ex_result))"
  using accepted_first_scores_descending
          [OF ex_Find(1) ex_sorted(1) ex_sorted(2) ex_measures(1) ex_sizes(1)]
    ex_Find(1) ex_sorted(1) ex_sorted(2) ex_measures(1) ex_sizes(1) ex_detections_length(1)
  by simp




section \<open>\<^verbatim>\<open>ValidateConfig\<close> and the thresholds that are not numbers\<close>

text \<open>
  For a configuration whose float thresholds are numbers (\<open>minSupportRatio\<close> only when
  the ring is enabled), \<^verbatim>\<open>ValidateConfig\<close> checks the rules in the order of the
  specification and reports the first that fails: it returns false and leaves a message
  that starts with the name of that rule; it returns true, leaving \<^verbatim>\<open>errorOut\<close> alone,
  when none fails. There a \<open>maxArea\<close> below \<open>minArea\<close> makes it fail, with the message
  of \<^verbatim>\<open>shape.maxArea\<close> when the four rules before hold, and an outer percent not above
  the inner one, with the ring enabled, makes it fail, with the message of the ring radii
  when the seven rules before hold.
\<close>

lemma ValidateConfig_first_failing:
  assumes "thresholds_not_nan cfg"
  shows "(case first_failing cfg of
            None \<Rightarrow> ValidateConfig cfg errorOut = (True, errorOut)
          | Some r \<Rightarrow> reports (ValidateConfig cfg errorOut) errorOut r)
       \<and> (maxArea (shape cfg) < minArea (shape cfg) \<longrightarrow>
            \<not> fst (ValidateConfig cfg errorOut)
            \<and> (list_all (rule_holds cfg) [CenterHues, CenterSat, CenterVal, MinArea] \<longrightarrow>
                 reports (ValidateConfig cfg errorOut) errorOut MaxArea))
       \<and> (enabled (contextRing cfg)
            \<and> outerRadiusPercent (contextRing cfg) \<le> innerRadiusPercent (contextRing cfg) \<longrightarrow>
            \<not> fst (ValidateConfig cfg errorOut)
            \<and> (list_all (rule_holds cfg)
                  [CenterHues, CenterSat, CenterVal, MinArea, MaxArea, MinCircularity, MinFillRatio] \<longrightarrow>
                 reports (ValidateConfig cfg errorOut) errorOut RingRadii))"
proof -
  have main: "first_failing_reported cfg errorOut"
    using assms by (rule reported_from_0)
  have fails: "\<not> fst (ValidateConfig cfg errorOut)" if "\<not> rule_holds cfg r" for r
  proof -
    have "first_failing cfg \<noteq> None"
    proof
      assume "first_failing cfg = None"
      then have "\<forall>r \<in> set rules_in_order. rule_holds cfg r"
        by (simp add: first_failing_def find_None_iff)
      moreover have "r \<in> set rules_in_order"
        by (cases r) (simp_all add: rules_in_order_def)
      ultimately show False using that by blast
    qed
    then obtain k where "first_failing cfg = Some k" by blast
    with main show ?thesis by (simp add: first_failing_reported_def reports_def)
  qed
  have area: "\<not> fst (ValidateConfig cfg errorOut)" if "maxArea (shape cfg) < minArea (shape cfg)"
    using fails [of MaxArea] that by simp
  have area': "reports (ValidateConfig cfg errorOut) errorOut MaxArea"
    if "maxArea (shape cfg) < minArea (shape cfg)"
      and "list_all (rule_holds cfg) [CenterHues, CenterSat, CenterVal, MinArea]"
    using that ValidateConfig_MaxArea [OF assms, of errorOut] by simp
  have radii: "\<not> fst (ValidateConfig cfg errorOut)"
    if "enabled (contextRing cfg)"
      and "outerRadiusPercent (contextRing cfg) \<le> innerRadiusPercent (contextRing cfg)"
    using fails [of RingRadii] that by simp
  have radii': "reports (ValidateConfig cfg errorOut) errorOut RingRadii"
    if "enabled (contextRing cfg)"
      and "outerRadiusPercent (contextRing cfg) \<le> innerRadiusPercent (contextRing cfg)"
      and "list_all (rule_holds cfg)
             [CenterHues, CenterSat, CenterVal, MinArea, MaxArea, MinCircularity, MinFillRatio]"
    using that ValidateConfig_RingRadii [OF assms, of errorOut] by simp
  show ?thesis
    using main area area' radii radii' unfolding first_failing_reported_def by blast
qed

lemma default_thresholds: "thresholds_not_nan BuildDefaultPatternConfig"
  by (simp add: thresholds_not_nan_def BuildDefaultPatternConfig_def is_nan_def f32_not_nan)

lemma default_rules: "list_all (rule_holds BuildDefaultPatternConfig) rules_in_order"
  by (simp add: rules_in_order_def BuildDefaultPatternConfig_def range_ok_def
        HueRangeSet_of_def Add_def f32_75 f32_68 f32_42 in_unit_interval_def)

lemma ValidateConfig_examples:
  "thresholds_not_nan BuildDefaultPatternConfig
   \<and> ValidateConfig BuildDefaultPatternConfig (Some []) = (True, Some [])
   \<and> thresholds_not_nan ex_config_areas
   \<and> maxArea (shape ex_config_areas) < minArea (shape ex_config_areas)
   \<and> reports (ValidateConfig ex_config_areas (Some [])) (Some []) MaxArea
   \<and> thresholds_not_nan ex_config_radii
   \<and> outerRadiusPercent (contextRing ex_config_radii) \<le> innerRadiusPercent (contextRing ex_config_radii)
   \<and> reports (ValidateConfig ex_config_radii (Some [])) (Some []) RingRadii"
proof -
  have n1: "thresholds_not_nan BuildDefaultPatternConfig" by (rule default_thresholds)
  have n2: "thresholds_not_nan ex_config_areas"
    using n1 by (simp add: thresholds_not_nan_def ex_config_areas_def)
  have n3: "thresholds_not_nan ex_config_radii"
    using n1 by (simp add: thresholds_not_nan_def ex_config_radii_def)
  have "first_failing BuildDefaultPatternConfig = None"
    using default_rules by (simp add: first_failing_def find_None_iff list_all_iff)
  then have v1: "ValidateConfig BuildDefaultPatternConfig (Some []) = (True, Some [])"
    using ValidateConfig_first_failing [OF n1, of "Some []"] by simp
  have a: "maxArea (shape ex_config_areas) < minArea (shape ex_config_areas)"
    by (simp add: ex_config_areas_def)
  have "list_all (rule_holds ex_config_areas) [CenterHues, CenterSat, CenterVal, MinArea]"
    using default_rules by (simp add: rules_in_order_def ex_config_areas_def)
  then have v2: "reports (ValidateConfig ex_config_areas (Some [])) (Some []) MaxArea"
    using ValidateConfig_first_failing [OF n2, of "Some []"] a by blast
  have r: "outerRadiusPercent (contextRing ex_config_radii) \<le> innerRadiusPercent (contextRing ex_config_radii)"
    "enabled (contextRing ex_config_radii)"
    by (simp_all add: ex_config_radii_def BuildDefaultPatternConfig_def)
  have "list_all (rule_holds ex_config_radii)
          [CenterHues, CenterSat, CenterVal, MinArea, MaxArea, MinCircularity, MinFillRatio]"
    using default_rules by (simp add: rules_in_order_def ex_config_radii_def)
  then have v3: "reports (ValidateConfig ex_config_radii (Some [])) (Some []) RingRadii"
    using ValidateConfig_first_failing [OF n3, of "Some []"] r by blast
  show ?thesis using n1 n2 n3 v1 v2 v3 a r(1) by simp
qed

text \<open>
  A threshold that is NaN passes \<^verbatim>\<open>ValidateConfig\<close>, and the detector then accepts no
  candidate: \<^verbatim>\<open>circularity >= minCircularity\<close> is false for every circularity.
\<close>

lemma nan_threshold_accepts_nothing:
  assumes "Find cv config hsv = Inr res" and "permuted_by_library cv config hsv"
    and "minCircularity (shape config) = NaN"
  shows "\<forall>d \<in> set (detections res). \<not> accepted (metrics d)"
proof
  fix d assume d: "d \<in> set (detections res)"
  obtain cm sm em c where c: "candidate cv config cm sm em c = Some d"
    using detection_candidate [OF assms(1,2) d] by blast
  have "\<not> passesCircularity (metrics d)"
    by (simp add: candidate_Some(11) [OF c] assms(3) fge_def)
  then show "\<not> accepted (metrics d)"
    by (simp add: candidate_Some(15) [OF c])
qed

text \<open>
  C6. \<^verbatim>\<open>ValidateConfig\<close> is to check the rules in the order of the specification and to
  report the first that fails, among them that \<open>minCircularity\<close> is in \<open>[0,1]\<close>. The
  default configuration with a NaN for \<^verbatim>\<open>shape.minCircularity\<close>, which the API lets
  through from its caller, breaks that rule and none before it, and \<^verbatim>\<open>ValidateConfig\<close>
  returns true there and leaves \<^verbatim>\<open>errorOut\<close> alone: both comparisons of
  \<^verbatim>\<open>x < 0.0F || x > 1.0F\<close> are false for a NaN.
\<close>

theorem ValidateConfig_accepts_nan:
  "first_failing ex_config_nan = Some MinCircularity
   \<and> \<not> in_unit_interval (minCircularity (shape ex_config_nan))
   \<and> ValidateConfig ex_config_nan None = (True, None)"
proof -
  have "list_all (rule_holds ex_config_nan) [CenterHues, CenterSat, CenterVal, MinArea, MaxArea]"
    using default_rules by (simp add: rules_in_order_def ex_config_nan_def)
  moreover have n: "\<not> in_unit_interval (minCircularity (shape ex_config_nan))"
    by (simp add: ex_config_nan_def in_unit_interval_def)
  ultimately have "first_failing ex_config_nan = Some MinCircularity"
    by (simp add: first_failing_def rules_in_order_def)
  moreover have "ValidateConfig ex_config_nan None = (True, None)"
    by (simp add: ValidateConfig_def ex_config_nan_def BuildDefaultPatternConfig_def Let_def
          validateRange_def Empty_def HueRangeSet_of_def Add_def fgt_def f32_68 f32_42)
  ultimately show ?thesis using n by simp
qed

end
